theory Spec2Isabelle
  imports Complex_Main
begin

section \<open>Tensor elements\<close>

text \<open>
  The module \<^verbatim>\<open>onmt/modules/seq_hre_word_global_attention.py\<close> computes on PyTorch
  float tensors. An element is modelled as a number or one of the three special values
  of IEEE arithmetic. The sign of zero is not represented.
\<close>

datatype tfloat = Fin real | PInf | NInf | NaN

fun is_fin :: "tfloat \<Rightarrow> bool" where
  "is_fin (Fin a) = True"
| "is_fin PInf = False"
| "is_fin NInf = False"
| "is_fin NaN = False"

fun val :: "tfloat \<Rightarrow> real" where
  "val (Fin a) = a"
| "val PInf = 0"
| "val NInf = 0"
| "val NaN = 0"

text \<open>
  What an operation returns on numbers depends on the floating-point format: the result
  is rounded, a large result overflows to an infinity and a small one underflows to 0.
  The model does not fix these results. They are a parameter of every function that
  computes: \<open>add_r fp a b\<close> is the element that \<open>a + b\<close> evaluates to, and so on for the
  product, the quotient by a number other than 0, \<^verbatim>\<open>exp\<close> and \<^verbatim>\<open>tanh\<close>.
\<close>

record arith =
  add_r :: "real \<Rightarrow> real \<Rightarrow> tfloat"
  mul_r :: "real \<Rightarrow> real \<Rightarrow> tfloat"
  div_r :: "real \<Rightarrow> real \<Rightarrow> tfloat"
  exp_r :: "real \<Rightarrow> tfloat"
  tanh_r :: "real \<Rightarrow> tfloat"

text \<open>
  The special values follow the IEEE rules: an infinity absorbs numbers,
  \<open>\<infinity> - \<infinity>\<close>, \<open>0 \<sdot> \<infinity>\<close>, \<open>0 / 0\<close> and \<open>\<infinity> / \<infinity>\<close> are NaN, a number divided by an
  infinity is 0, and NaN is contagious.
\<close>

fun fl_add :: "arith \<Rightarrow> tfloat \<Rightarrow> tfloat \<Rightarrow> tfloat" where
  "fl_add fp (Fin a) (Fin b) = add_r fp a b"
| "fl_add fp NaN y = NaN"
| "fl_add fp x NaN = NaN"
| "fl_add fp PInf NInf = NaN"
| "fl_add fp NInf PInf = NaN"
| "fl_add fp PInf y = PInf"
| "fl_add fp x PInf = PInf"
| "fl_add fp NInf y = NInf"
| "fl_add fp x NInf = NInf"

fun fl_neg :: "tfloat \<Rightarrow> tfloat" where
  "fl_neg (Fin a) = Fin (- a)"
| "fl_neg PInf = NInf"
| "fl_neg NInf = PInf"
| "fl_neg NaN = NaN"

definition fl_sub :: "arith \<Rightarrow> tfloat \<Rightarrow> tfloat \<Rightarrow> tfloat" where
  "fl_sub fp x y = fl_add fp x (fl_neg y)"

fun fl_mul :: "arith \<Rightarrow> tfloat \<Rightarrow> tfloat \<Rightarrow> tfloat" where
  "fl_mul fp (Fin a) (Fin b) = mul_r fp a b"
| "fl_mul fp NaN y = NaN"
| "fl_mul fp x NaN = NaN"
| "fl_mul fp (Fin a) PInf = (if 0 < a then PInf else if a < 0 then NInf else NaN)"
| "fl_mul fp (Fin a) NInf = (if 0 < a then NInf else if a < 0 then PInf else NaN)"
| "fl_mul fp PInf (Fin b) = (if 0 < b then PInf else if b < 0 then NInf else NaN)"
| "fl_mul fp NInf (Fin b) = (if 0 < b then NInf else if b < 0 then PInf else NaN)"
| "fl_mul fp PInf PInf = PInf"
| "fl_mul fp PInf NInf = NInf"
| "fl_mul fp NInf PInf = NInf"
| "fl_mul fp NInf NInf = PInf"

fun fl_div :: "arith \<Rightarrow> tfloat \<Rightarrow> tfloat \<Rightarrow> tfloat" where
  "fl_div fp (Fin a) (Fin b) =
     (if b = 0 then (if a = 0 then NaN else if 0 < a then PInf else NInf)
      else div_r fp a b)"
| "fl_div fp NaN y = NaN"
| "fl_div fp x NaN = NaN"
| "fl_div fp (Fin a) PInf = Fin 0"
| "fl_div fp (Fin a) NInf = Fin 0"
| "fl_div fp PInf (Fin b) = (if b < 0 then NInf else PInf)"
| "fl_div fp NInf (Fin b) = (if b < 0 then PInf else NInf)"
| "fl_div fp PInf PInf = NaN"
| "fl_div fp PInf NInf = NaN"
| "fl_div fp NInf PInf = NaN"
| "fl_div fp NInf NInf = NaN"

fun fl_exp :: "arith \<Rightarrow> tfloat \<Rightarrow> tfloat" where
  "fl_exp fp (Fin a) = exp_r fp a"
| "fl_exp fp PInf = PInf"
| "fl_exp fp NInf = Fin 0"
| "fl_exp fp NaN = NaN"

fun fl_tanh :: "arith \<Rightarrow> tfloat \<Rightarrow> tfloat" where
  "fl_tanh fp (Fin a) = tanh_r fp a"
| "fl_tanh fp PInf = Fin 1"
| "fl_tanh fp NInf = Fin (- 1)"
| "fl_tanh fp NaN = NaN"

text \<open>The comparison \<open>x <= y\<close> of two elements; every comparison with NaN is false.\<close>

fun fl_le :: "tfloat \<Rightarrow> tfloat \<Rightarrow> bool" where
  "fl_le (Fin a) (Fin b) = (a \<le> b)"
| "fl_le NaN y = False"
| "fl_le x NaN = False"
| "fl_le NInf y = True"
| "fl_le x PInf = True"
| "fl_le PInf y = False"
| "fl_le x NInf = False"

text \<open>The larger of two elements, as a maximum over a tensor takes it: NaN wins.\<close>

fun fl_max :: "tfloat \<Rightarrow> tfloat \<Rightarrow> tfloat" where
  "fl_max (Fin a) (Fin b) = Fin (max a b)"
| "fl_max NaN y = NaN"
| "fl_max x NaN = NaN"
| "fl_max PInf y = PInf"
| "fl_max x PInf = PInf"
| "fl_max NInf y = y"
| "fl_max x NInf = x"

text \<open>
  Arithmetic without rounding, overflow and underflow: every operation on numbers
  returns the exact real result.
\<close>

definition exact :: arith where
  "exact = \<lparr>add_r = (\<lambda>a b. Fin (a + b)), mul_r = (\<lambda>a b. Fin (a * b)),
            div_r = (\<lambda>a b. Fin (a / b)), exp_r = (\<lambda>a. Fin (exp a)),
            tanh_r = (\<lambda>a. Fin (tanh a))\<rparr>"

text \<open>
  The facts about operations on numbers that the properties below rely on. Each holds
  of IEEE 754 arithmetic with rounding to nearest and gradual underflow, whatever the
  format, and of exact arithmetic: an operation on numbers never returns NaN (a
  quotient by 0 apart, which \<open>fl_div\<close> treats); adding 0, multiplying by 1 and by 0,
  subtracting a number from itself and dividing 0 are exact; rounding never reverses the
  order of two results, so the sum of two non-negative numbers is not below either of
  them, and a product with a non-negative factor and a quotient by a positive divisor
  grow with the other operand; \<^verbatim>\<open>exp\<close> returns a non-negative number or \<open>+\<infinity>\<close> and
  \<open>exp 0 = 1\<close>; \<^verbatim>\<open>tanh\<close> returns a number.
\<close>

definition ieee :: "arith \<Rightarrow> bool" where
  "ieee fp =
     ((\<forall>a b. add_r fp a b \<noteq> NaN) \<and>
      (\<forall>a. add_r fp 0 a = Fin a) \<and>
      (\<forall>a. add_r fp a 0 = Fin a) \<and>
      (\<forall>a. add_r fp a (- a) = Fin 0) \<and>
      (\<forall>a b. 0 \<le> a \<longrightarrow> 0 \<le> b \<longrightarrow>
         add_r fp a b = PInf \<or> (\<exists>r. add_r fp a b = Fin r \<and> a \<le> r \<and> b \<le> r)) \<and>
      (\<forall>a b. mul_r fp a b \<noteq> NaN) \<and>
      (\<forall>a. mul_r fp 0 a = Fin 0) \<and>
      (\<forall>a. mul_r fp a 0 = Fin 0) \<and>
      (\<forall>a. mul_r fp a 1 = Fin a) \<and>
      (\<forall>a a' u. 0 \<le> u \<longrightarrow> a \<le> a' \<longrightarrow> fl_le (mul_r fp a u) (mul_r fp a' u)) \<and>
      (\<forall>a b. b \<noteq> 0 \<longrightarrow> div_r fp a b \<noteq> NaN) \<and>
      (\<forall>b. b \<noteq> 0 \<longrightarrow> div_r fp 0 b = Fin 0) \<and>
      (\<forall>a a' n. 0 < n \<longrightarrow> a \<le> a' \<longrightarrow> fl_le (div_r fp a n) (div_r fp a' n)) \<and>
      (\<forall>a. exp_r fp a = PInf \<or> (\<exists>r. exp_r fp a = Fin r \<and> 0 \<le> r)) \<and>
      exp_r fp 0 = Fin 1 \<and>
      (\<forall>a. is_fin (tanh_r fp a)))"

text \<open>The sum \<open>f 0 + ... + f (n - 1)\<close>, accumulated from \<open>0.0\<close>.\<close>

fun sum_upto :: "arith \<Rightarrow> nat \<Rightarrow> (nat \<Rightarrow> tfloat) \<Rightarrow> tfloat" where
  "sum_upto fp 0 f = Fin 0"
| "sum_upto fp (Suc n) f = fl_add fp (sum_upto fp n f) (f n)"

text \<open>The maximum of \<open>f 0, ..., f (n - 1)\<close>.\<close>

fun max_upto :: "nat \<Rightarrow> (nat \<Rightarrow> tfloat) \<Rightarrow> tfloat" where
  "max_upto 0 f = NInf"
| "max_upto (Suc n) f = fl_max (max_upto n f) (f n)"

fun all_upto :: "nat \<Rightarrow> (nat \<Rightarrow> bool) \<Rightarrow> bool" where
  "all_upto 0 P = True"
| "all_upto (Suc n) P = (all_upto n P \<and> P n)"

section \<open>Tensors and errors\<close>

text \<open>
  A tensor is its shape and its elements by index, as \<^verbatim>\<open>size()\<close> and indexing read
  it; only the elements inside the shape mean anything. Tensors are taken to be
  contiguous: the strides of a tensor are not represented, and a \<^verbatim>\<open>view\<close> can fail
  on its sizes only. A one-dimensional LongTensor is a list of integers.
\<close>

record 'a tensor2 =
  rows :: nat
  cols :: nat
  at2 :: "nat \<Rightarrow> nat \<Rightarrow> 'a"

record 'a tensor3 =
  d0 :: nat
  d1 :: nat
  d2 :: nat
  at3 :: "nat \<Rightarrow> nat \<Rightarrow> nat \<Rightarrow> 'a"

text \<open>
  An argument of \<^verbatim>\<open>forward\<close> that may be two- or three-dimensional (\<^verbatim>\<open>source\<close>,
  \<^verbatim>\<open>utr_align_vectors\<close>). Other ranks are outside the model.
\<close>

datatype ftensor = T2 "tfloat tensor2" | T3 "tfloat tensor3"

text \<open>
  The exceptions a call can end with. \<open>AeqError args\<close> is the AssertionError of
  \<^verbatim>\<open>aeq\<close>, carrying the compared values; \<open>MemoryLengthsRequired\<close> and
  \<open>SrcLengthsDisagree\<close> are the AssertionErrors of lines 185 and 215;
  \<open>AttributeError\<close> is Python's for \<^verbatim>\<open>None.dim()\<close> and for a layer that
  \<^verbatim>\<open>__init__\<close> did not create; \<open>TypeError\<close> is the unpacking of \<^verbatim>\<open>None\<close>;
  \<open>ValueError\<close> the unpacking of a size of the wrong rank; \<open>RuntimeError\<close> is
  PyTorch's for shapes that do not fit an operation and for an index out of range.
\<close>

datatype error =
  AttributeError
| AeqError "nat list"
| MemoryLengthsRequired
| SrcLengthsDisagree
| TypeError
| ValueError
| RuntimeError

definition bind_err :: "error + 'a \<Rightarrow> ('a \<Rightarrow> error + 'b) \<Rightarrow> error + 'b" where
  "bind_err r f = (case r of Inl e \<Rightarrow> Inl e | Inr x \<Rightarrow> f x)"

text \<open>
  Modelled from the spec: \<^verbatim>\<open>onmt.utils.misc.aeq\<close> is not among the sources. The spec:
  ``given two or more integers, fails loudly (not silently) if they differ [...]; must
  report the actual differing values''.
\<close>

definition aeq :: "nat list \<Rightarrow> error + unit" where
  "aeq args =
     (case args of
        [] \<Rightarrow> Inr ()
      | first # rest \<Rightarrow>
          if list_all (\<lambda>arg. arg = first) rest then Inr () else Inl (AeqError args))"

text \<open>
  Modelled from the spec: \<^verbatim>\<open>onmt.utils.misc.sequence_mask\<close> is not among the sources.
  The spec: ``given a lengths vector and a maximum length, returns a boolean validity
  matrix (batch, max_len); must satisfy: entry (b, i) is true iff i < lengths[b]''.
\<close>

definition sequence_mask :: "int list \<Rightarrow> nat \<Rightarrow> bool tensor2" where
  "sequence_mask lengths max_len =
     \<lparr>rows = length lengths, cols = max_len, at2 = (\<lambda>b i. int i < lengths ! b)\<rparr>"

subsection \<open>Shape operations\<close>

definition unsqueeze1 :: "'a tensor2 \<Rightarrow> 'a tensor3" where
  "unsqueeze1 x = \<lparr>d0 = rows x, d1 = 1, d2 = cols x, at3 = (\<lambda>b t d. at2 x b d)\<rparr>"

text \<open>
  \<^verbatim>\<open>x.squeeze(1)\<close> followed by the unpacking of \<^verbatim>\<open>x.size()\<close> into two names:
  \<^verbatim>\<open>squeeze\<close> leaves a dimension that is not 1 alone, and the unpacking then fails.
\<close>

definition squeeze1 :: "'a tensor3 \<Rightarrow> error + 'a tensor2" where
  "squeeze1 x =
     (if d1 x = 1 then Inr \<lparr>rows = d0 x, cols = d2 x, at2 = (\<lambda>b d. at3 x b 0 d)\<rparr>
      else Inl ValueError)"

definition transpose01 :: "'a tensor3 \<Rightarrow> 'a tensor3" where
  "transpose01 x = \<lparr>d0 = d1 x, d1 = d0 x, d2 = d2 x, at3 = (\<lambda>t b d. at3 x b t d)\<rparr>"

definition transpose12 :: "'a tensor3 \<Rightarrow> 'a tensor3" where
  "transpose12 x = \<lparr>d0 = d0 x, d1 = d2 x, d2 = d1 x, at3 = (\<lambda>b d s. at3 x b s d)\<rparr>"

text \<open>Element \<open>i\<close> of a tensor in row-major order.\<close>

definition flat2 :: "'a tensor2 \<Rightarrow> nat \<Rightarrow> 'a" where
  "flat2 x i = at2 x (i div cols x) (i mod cols x)"

definition flat3 :: "'a tensor3 \<Rightarrow> nat \<Rightarrow> 'a" where
  "flat3 x i = at3 x (i div (d1 x * d2 x)) ((i div d2 x) mod d1 x) (i mod d2 x)"

text \<open>\<^verbatim>\<open>x.view(r, c)\<close> and \<^verbatim>\<open>y.view(a, b, c)\<close>: the element count must be kept.\<close>

definition view_2d :: "'a tensor3 \<Rightarrow> nat \<Rightarrow> nat \<Rightarrow> error + 'a tensor2" where
  "view_2d x r c =
     (if r * c \<noteq> d0 x * d1 x * d2 x then Inl RuntimeError
      else Inr \<lparr>rows = r, cols = c, at2 = (\<lambda>n k. flat3 x (n * c + k))\<rparr>)"

definition view_3d :: "'a tensor2 \<Rightarrow> nat \<Rightarrow> nat \<Rightarrow> nat \<Rightarrow> error + 'a tensor3" where
  "view_3d y a b c =
     (if a * b * c \<noteq> rows y * cols y then Inl RuntimeError
      else Inr \<lparr>d0 = a, d1 = b, d2 = c, at3 = (\<lambda>i j k. flat2 y ((i * b + j) * c + k))\<rparr>)"

text \<open>\<^verbatim>\<open>x.view(-1, c)\<close>: the number of rows is inferred, which needs \<open>c\<close> to divide the
  element count and not to be 0.\<close>

definition view_rows :: "'a tensor3 \<Rightarrow> nat \<Rightarrow> error + 'a tensor2" where
  "view_rows x c =
     (if c = 0 \<or> (d0 x * d1 x * d2 x) mod c \<noteq> 0 then Inl RuntimeError
      else view_2d x ((d0 x * d1 x * d2 x) div c) c)"

text \<open>\<^verbatim>\<open>coverage.view(-1).unsqueeze(1)\<close>: one column holding the elements in order.\<close>

definition view_column :: "'a tensor2 \<Rightarrow> 'a tensor2" where
  "view_column x = \<lparr>rows = rows x * cols x, cols = 1, at2 = (\<lambda>n k. flat2 x n)\<rparr>"

text \<open>\<^verbatim>\<open>torch.cat([a, b], 2)\<close>.\<close>

definition cat2 :: "'a tensor3 \<Rightarrow> 'a tensor3 \<Rightarrow> error + 'a tensor3" where
  "cat2 a b =
     (if d0 a \<noteq> d0 b \<or> d1 a \<noteq> d1 b then Inl RuntimeError
      else Inr \<lparr>d0 = d0 a, d1 = d1 a, d2 = d2 a + d2 b,
                at3 = (\<lambda>i j k. if k < d2 a then at3 a i j k else at3 b i j (k - d2 a))\<rparr>)"

subsection \<open>Broadcasting\<close>

text \<open>
  PyTorch's broadcasting of two sizes of one dimension, and the index an operand is
  read at: an operand of size 1 in a dimension is read at index 0 there.
\<close>

definition bc_size :: "nat \<Rightarrow> nat \<Rightarrow> nat option" where
  "bc_size a b = (if a = b then Some a else if a = 1 then Some b else if b = 1 then Some a else None)"

definition bc_idx :: "nat \<Rightarrow> nat \<Rightarrow> nat" where
  "bc_idx n i = (if n = 1 then 0 else i)"

definition broadcast_op ::
  "(tfloat \<Rightarrow> tfloat \<Rightarrow> tfloat) \<Rightarrow> tfloat tensor3 \<Rightarrow> tfloat tensor3 \<Rightarrow> error + tfloat tensor3" where
  "broadcast_op f a b =
     (case (bc_size (d0 a) (d0 b), bc_size (d1 a) (d1 b), bc_size (d2 a) (d2 b)) of
        (Some n0, Some n1, Some n2) \<Rightarrow>
          Inr \<lparr>d0 = n0, d1 = n1, d2 = n2,
               at3 = (\<lambda>i j k. f (at3 a (bc_idx (d0 a) i) (bc_idx (d1 a) j) (bc_idx (d2 a) k))
                                 (at3 b (bc_idx (d0 b) i) (bc_idx (d1 b) j) (bc_idx (d2 b) k)))\<rparr>
      | _ \<Rightarrow> Inl RuntimeError)"

subsection \<open>Numeric primitives of PyTorch\<close>

text \<open>\<^verbatim>\<open>torch.tanh\<close> and the in-place \<^verbatim>\<open>+=\<close> of two tensors of one shape.\<close>

definition tanh3 :: "arith \<Rightarrow> tfloat tensor3 \<Rightarrow> tfloat tensor3" where
  "tanh3 fp x = x\<lparr>at3 := (\<lambda>i j k. fl_tanh fp (at3 x i j k))\<rparr>"

definition add3 :: "arith \<Rightarrow> tfloat tensor3 \<Rightarrow> tfloat tensor3 \<Rightarrow> tfloat tensor3" where
  "add3 fp x y = x\<lparr>at3 := (\<lambda>i j k. fl_add fp (at3 x i j k) (at3 y i j k))\<rparr>"

text \<open>
  \<^verbatim>\<open>torch.bmm\<close>: \<open>(b, n, m) x (b, m, p) \<rightarrow> (b, n, p)\<close>; the batch sizes and the inner
  sizes must agree.
\<close>

definition bmm :: "arith \<Rightarrow> tfloat tensor3 \<Rightarrow> tfloat tensor3 \<Rightarrow> error + tfloat tensor3" where
  "bmm fp a b =
     (if d0 a \<noteq> d0 b \<or> d2 a \<noteq> d1 b then Inl RuntimeError
      else Inr \<lparr>d0 = d0 a, d1 = d1 a, d2 = d2 b,
                at3 = (\<lambda>i j k. sum_upto fp (d2 a) (\<lambda>l. fl_mul fp (at3 a i j l) (at3 b i l k)))\<rparr>)"

text \<open>
  \<^verbatim>\<open>nn.Linear(in_features, out_features)\<close> applied to a two-dimensional input:
  \<open>y = x W\<^sup>T + b\<close>, with \<open>W\<close> of shape \<open>(out_features, in_features)\<close>.
\<close>

definition nn_linear ::
  "arith \<Rightarrow> nat \<Rightarrow> nat \<Rightarrow> (nat \<Rightarrow> nat \<Rightarrow> tfloat) \<Rightarrow> (nat \<Rightarrow> tfloat) option \<Rightarrow> tfloat tensor2
     \<Rightarrow> error + tfloat tensor2" where
  "nn_linear fp in_features out_features weight bias x =
     (if cols x \<noteq> in_features then Inl RuntimeError
      else Inr \<lparr>rows = rows x, cols = out_features,
                at2 = (\<lambda>n out.
                  let y = sum_upto fp in_features (\<lambda>k. fl_mul fp (at2 x n k) (weight out k))
                  in case bias of None \<Rightarrow> y | Some b \<Rightarrow> fl_add fp y (b out))\<rparr>)"

text \<open>
  \<^verbatim>\<open>F.softmax(x, -1)\<close> of a two-dimensional tensor. PyTorch documents the
  function as \<open>exp (x\<^sub>i) / \<Sum>\<^sub>j exp (x\<^sub>j)\<close> over each row and computes it after
  subtracting the maximum of the row, as \<open>exp (x\<^sub>i - m) / \<Sum>\<^sub>j exp (x\<^sub>j - m)\<close>: a row
  that holds \<open>+\<infinity>\<close> or NaN, and a row of \<open>-\<infinity>\<close> only, comes out as NaN throughout.
\<close>

definition softmax_row :: "arith \<Rightarrow> nat \<Rightarrow> (nat \<Rightarrow> tfloat) \<Rightarrow> nat \<Rightarrow> tfloat" where
  "softmax_row fp n x i =
     (let m = max_upto n x in
      fl_div fp (fl_exp fp (fl_sub fp (x i) m))
                (sum_upto fp n (\<lambda>j. fl_exp fp (fl_sub fp (x j) m))))"

definition softmax :: "arith \<Rightarrow> tfloat tensor2 \<Rightarrow> tfloat tensor2" where
  "softmax fp x = x\<lparr>at2 := (\<lambda>n s. softmax_row fp (cols x) (at2 x n) s)\<rparr>"

text \<open>\<^verbatim>\<open>x.sum(dim=-1, keepdim=True)\<close>.\<close>

definition sum_last :: "arith \<Rightarrow> tfloat tensor3 \<Rightarrow> tfloat tensor3" where
  "sum_last fp x = \<lparr>d0 = d0 x, d1 = d1 x, d2 = 1, at3 = (\<lambda>i j k. sum_upto fp (d2 x) (at3 x i j))\<rparr>"

text \<open>
  \<^verbatim>\<open>input.gather(dim=-1, index=index)\<close>: the index may not be larger than the input in
  the other dimensions, and every index must be inside the last dimension of the input.
\<close>

definition gather_last :: "tfloat tensor3 \<Rightarrow> int tensor3 \<Rightarrow> error + tfloat tensor3" where
  "gather_last input index =
     (if d0 input < d0 index \<or> d1 input < d1 index then Inl RuntimeError
      else if \<not> all_upto (d0 index) (\<lambda>b. all_upto (d1 index) (\<lambda>t. all_upto (d2 index) (\<lambda>s.
                  0 \<le> at3 index b t s \<and> at3 index b t s < int (d2 input))))
      then Inl RuntimeError
      else Inr \<lparr>d0 = d0 index, d1 = d1 index, d2 = d2 index,
                at3 = (\<lambda>b t s. at3 input b t (nat (at3 index b t s)))\<rparr>)"

text \<open>\<^verbatim>\<open>ids.unsqueeze(1).expand(-1, target_l, -1)\<close>.\<close>

definition unsqueeze_expand :: "'a tensor2 \<Rightarrow> nat \<Rightarrow> 'a tensor3" where
  "unsqueeze_expand ids target_l =
     \<lparr>d0 = rows ids, d1 = target_l, d2 = cols ids, at3 = (\<lambda>b t s. at2 ids b s)\<rparr>"

text \<open>
  \<^verbatim>\<open>a.eq(b).all()\<close> of two one-dimensional LongTensors: elementwise after
  broadcasting.
\<close>

definition eq_all :: "int list \<Rightarrow> int list \<Rightarrow> error + bool" where
  "eq_all a b =
     (if length a = length b then Inr (list_all2 (\<lambda>x y. x = y) a b)
      else if length a = 1 then Inr (list_all (\<lambda>y. a ! 0 = y) b)
      else if length b = 1 then Inr (list_all (\<lambda>x. x = b ! 0) a)
      else Inl RuntimeError)"

section \<open>The module\<close>

datatype attn_type = Dot | General | Mlp

datatype attn_func = Softmax | Sparsemax

text \<open>
  The state of a \<^verbatim>\<open>SeqHREWordGlobalAttention\<close> after \<^verbatim>\<open>__init__\<close>: the
  configuration and the weights of its layers. The arguments \<^verbatim>\<open>attn_type\<close> and
  \<^verbatim>\<open>attn_func\<close> that \<^verbatim>\<open>__init__\<close> rejects are not values of their types.
  \<open>coverage\<close> says whether \<^verbatim>\<open>linear_cover\<close> was created; the layers of the scoring
  strategy exist whenever \<^verbatim>\<open>score\<close> reads them, and \<^verbatim>\<open>linear_out\<close> has its bias
  exactly for \<^verbatim>\<open>mlp\<close>. Every layer has the sizes \<^verbatim>\<open>__init__\<close> gives it from
  \<^verbatim>\<open>dim\<close>.
\<close>

record attention =
  mdim :: nat
  seqHRE_attn_rescale :: bool
  attn_type :: attn_type
  attn_func :: attn_func
  output_attn_h :: bool
  coverage :: bool
  linear_in :: "nat \<Rightarrow> nat \<Rightarrow> tfloat"
  linear_context :: "nat \<Rightarrow> nat \<Rightarrow> tfloat"
  linear_query :: "nat \<Rightarrow> nat \<Rightarrow> tfloat"
  linear_query_bias :: "nat \<Rightarrow> tfloat"
  v :: "nat \<Rightarrow> nat \<Rightarrow> tfloat"
  linear_out :: "nat \<Rightarrow> nat \<Rightarrow> tfloat"
  linear_out_bias :: "nat \<Rightarrow> tfloat"
  linear_cover :: "nat \<Rightarrow> nat \<Rightarrow> tfloat"

subsection \<open>score (lines 101-140)\<close>

definition score :: "arith \<Rightarrow> attention \<Rightarrow> tfloat tensor3 \<Rightarrow> tfloat tensor3 \<Rightarrow> error + tfloat tensor3" where
  "score fp m h_t h_s =
     (let src_batch = d0 h_s; src_len = d1 h_s; src_dim = d2 h_s;
          tgt_batch = d0 h_t; tgt_len = d1 h_t; tgt_dim = d2 h_t
      in
      bind_err (aeq [src_batch, tgt_batch]) (\<lambda>_.
      bind_err (aeq [src_dim, tgt_dim]) (\<lambda>_.
      bind_err (aeq [mdim m, src_dim]) (\<lambda>_.
      if attn_type m = General \<or> attn_type m = Dot then
        bind_err
          (if attn_type m = General then
             bind_err (view_2d h_t (tgt_batch * tgt_len) tgt_dim) (\<lambda>h_t'.
             bind_err (nn_linear fp (mdim m) (mdim m) (linear_in m) None h_t') (\<lambda>h_t'.
             view_3d h_t' tgt_batch tgt_len tgt_dim))
           else Inr h_t) (\<lambda>h_t.
        bmm fp h_t (transpose12 h_s))
      else
        bind_err (view_rows h_t (mdim m)) (\<lambda>q.
        bind_err (nn_linear fp (mdim m) (mdim m) (linear_query m) (Some (linear_query_bias m)) q) (\<lambda>wq.
        bind_err (view_rows h_s (mdim m)) (\<lambda>s.
        bind_err (nn_linear fp (mdim m) (mdim m) (linear_context m) None s) (\<lambda>uh.
        if rows wq * cols wq \<noteq> tgt_batch * tgt_len * mdim m
           \<or> rows uh * cols uh \<noteq> src_batch * src_len * mdim m
        then Inl RuntimeError
        else
          Inr \<lparr>d0 = tgt_batch, d1 = tgt_len, d2 = src_len,
               at3 = (\<lambda>b t s. sum_upto fp (mdim m) (\<lambda>d.
                        fl_mul fp (fl_tanh fp (fl_add fp (flat2 wq ((b * tgt_len + t) * mdim m + d))
                                                (flat2 uh ((b * src_len + s) * mdim m + d))))
                               (v m 0 d)))\<rparr>))))))))"

subsection \<open>forward (lines 142-276)\<close>

text \<open>What \<^verbatim>\<open>forward\<close> returns: \<^verbatim>\<open>(c, attn_h, align_vectors)\<close>, two-dimensional for a
  one-step call and three-dimensional, step-major, otherwise.\<close>

datatype fwd_out =
  OneStep "tfloat tensor2" "tfloat tensor2 option" "tfloat tensor2"
| MultiStep "tfloat tensor3" "tfloat tensor3 option" "tfloat tensor3"

text \<open>
  Lines 175-190: the size checks and the assertions. The assertion of line 184 cannot
  fail, since a \<^verbatim>\<open>utr_align_vectors\<close> that is \<^verbatim>\<open>None\<close> has raised at line 172; the
  result is the lengths that line 185 has found present.
\<close>

definition check_inputs ::
  "attention \<Rightarrow> tfloat tensor3 \<Rightarrow> tfloat tensor3 \<Rightarrow> tfloat tensor3 \<Rightarrow> int list option
     \<Rightarrow> tfloat tensor2 option \<Rightarrow> error + int list" where
  "check_inputs m source memory_bank utr_align_vectors memory_lengths coverage' =
     (let batch = d0 memory_bank; source_l = d1 memory_bank; dm = d2 memory_bank;
          batch' = d0 source; target_l = d1 source; dm' = d2 source;
          batch'' = d0 utr_align_vectors; target_l' = d1 utr_align_vectors
      in
      bind_err (aeq [batch, batch', batch'']) (\<lambda>_.
      bind_err (aeq [dm, dm']) (\<lambda>_.
      bind_err (aeq [mdim m, dm]) (\<lambda>_.
      bind_err (aeq [target_l, target_l']) (\<lambda>_.
      case memory_lengths of
        None \<Rightarrow> Inl MemoryLengthsRequired
      | Some lengths \<Rightarrow>
          (case coverage' of
             None \<Rightarrow> Inr lengths
           | Some cov \<Rightarrow>
               bind_err (aeq [batch, rows cov]) (\<lambda>_.
               bind_err (aeq [source_l, cols cov]) (\<lambda>_.
               Inr lengths))))))))"

text \<open>
  Lines 192-195. The projection of the coverage vector, shaped like the memory bank.
\<close>

definition cover_projection ::
  "arith \<Rightarrow> attention \<Rightarrow> tfloat tensor2 \<Rightarrow> tfloat tensor3 \<Rightarrow> error + tfloat tensor3" where
  "cover_projection fp m cov memory_bank =
     (if \<not> coverage m then Inl AttributeError
      else
        bind_err (nn_linear fp 1 (mdim m) (linear_cover m) None (view_column cov)) (\<lambda>p.
        view_3d p (d0 memory_bank) (d1 memory_bank) (d2 memory_bank)))"

text \<open>
  The result is the pair of the caller's buffer after \<^verbatim>\<open>memory_bank += ...\<close> and the
  new tensor \<^verbatim>\<open>torch.tanh(memory_bank)\<close> that the name \<^verbatim>\<open>memory_bank\<close> is bound to
  from then on.
\<close>

definition inject_coverage ::
  "arith \<Rightarrow> attention \<Rightarrow> tfloat tensor3 \<Rightarrow> tfloat tensor2 option \<Rightarrow> error + (tfloat tensor3 \<times> tfloat tensor3)" where
  "inject_coverage fp m memory_bank coverage' =
     (case coverage' of
        None \<Rightarrow> Inr (memory_bank, memory_bank)
      | Some cov \<Rightarrow>
          bind_err (cover_projection fp m cov memory_bank) (\<lambda>p.
          let buffer = add3 fp memory_bank p in Inr (buffer, tanh3 fp buffer)))"

text \<open>Lines 201-204: the mask of the lengths, broadcast over the target steps, and
  \<^verbatim>\<open>masked_fill_\<close> with \<open>-\<infinity>\<close> where the mask is false.\<close>

definition mask_scores :: "tfloat tensor3 \<Rightarrow> int list \<Rightarrow> error + tfloat tensor3" where
  "mask_scores word_align memory_lengths =
     (let mask = sequence_mask memory_lengths (d2 word_align) in
      if rows mask \<noteq> d0 word_align \<and> rows mask \<noteq> 1 then Inl RuntimeError
      else Inr (word_align\<lparr>at3 := (\<lambda>b t s.
                  if \<not> at2 mask (bc_idx (rows mask) b) s then NInf else at3 word_align b t s)\<rparr>))"

text \<open>
  Lines 207-211. \<^verbatim>\<open>sparsemax\<close> (\<^verbatim>\<open>onmt.modules.sparse_activations\<close>) is not among the
  sources: it is a parameter of the model, applied along the last axis.
\<close>

definition normalize ::
  "arith \<Rightarrow> attention \<Rightarrow> (tfloat tensor2 \<Rightarrow> tfloat tensor2) \<Rightarrow> tfloat tensor3 \<Rightarrow> nat \<Rightarrow> nat \<Rightarrow> nat
     \<Rightarrow> error + tfloat tensor3" where
  "normalize fp m sparsemax word_align batch target_l source_l =
     bind_err (view_2d word_align (batch * target_l) source_l) (\<lambda>flat.
     view_3d (if attn_func m = Softmax then softmax fp flat else sparsemax flat)
       batch target_l source_l)"

text \<open>Lines 199-211: the word-level attention distribution.\<close>

definition word_attention ::
  "arith \<Rightarrow> attention \<Rightarrow> (tfloat tensor2 \<Rightarrow> tfloat tensor2) \<Rightarrow> tfloat tensor3 \<Rightarrow> tfloat tensor3
     \<Rightarrow> int list \<Rightarrow> error + tfloat tensor3" where
  "word_attention fp m sparsemax source memory_bank memory_lengths =
     bind_err (score fp m source memory_bank) (\<lambda>word_align.
     bind_err (mask_scores word_align memory_lengths) (\<lambda>word_align.
     normalize fp m sparsemax word_align (d0 memory_bank) (d1 source) (d1 memory_bank)))"

text \<open>Lines 214-227: the word-level weights times the weight of each word's unit.\<close>

definition reweight ::
  "arith \<Rightarrow> tfloat tensor3 \<Rightarrow> int list \<Rightarrow> tfloat tensor3 \<Rightarrow> (int tensor2 \<times> int list) option \<Rightarrow> nat
     \<Rightarrow> error + tfloat tensor3" where
  "reweight fp align_vectors memory_lengths utr_align_vectors src_word_utr_ids target_l =
     (case src_word_utr_ids of
        None \<Rightarrow> Inl TypeError
      | Some (word_utr_ids, memory_lengths') \<Rightarrow>
          bind_err (eq_all memory_lengths memory_lengths') (\<lambda>agree.
          if \<not> agree then Inl SrcLengthsDisagree
          else
            bind_err (gather_last utr_align_vectors (unsqueeze_expand word_utr_ids target_l))
              (\<lambda>expand_utr_align_vectors.
            broadcast_op (fl_mul fp) align_vectors expand_utr_align_vectors)))"

text \<open>Lines 213-229: the rescaling, when it is configured.\<close>

definition hre_rescale ::
  "arith \<Rightarrow> attention \<Rightarrow> tfloat tensor3 \<Rightarrow> int list \<Rightarrow> tfloat tensor3 \<Rightarrow> (int tensor2 \<times> int list) option
     \<Rightarrow> nat \<Rightarrow> error + tfloat tensor3" where
  "hre_rescale fp m align_vectors memory_lengths utr_align_vectors src_word_utr_ids target_l =
     (if seqHRE_attn_rescale m then
        bind_err (reweight fp align_vectors memory_lengths utr_align_vectors src_word_utr_ids target_l)
          (\<lambda>align_vectors.
        let norm_term' = sum_last fp align_vectors in
        broadcast_op (fl_div fp) align_vectors norm_term')
      else Inr align_vectors)"

text \<open>Lines 236-243: the output projection of \<open>[c, source]\<close>.\<close>

definition project_out ::
  "arith \<Rightarrow> attention \<Rightarrow> tfloat tensor3 \<Rightarrow> tfloat tensor3 \<Rightarrow> nat \<Rightarrow> nat \<Rightarrow> nat
     \<Rightarrow> error + tfloat tensor3 option" where
  "project_out fp m c source batch target_l dm =
     (if output_attn_h m then
        bind_err (cat2 c source) (\<lambda>cc.
        bind_err (view_2d cc (batch * target_l) (dm * 2)) (\<lambda>concat_c.
        bind_err (nn_linear fp (mdim m * 2) (mdim m) (linear_out m)
                    (if attn_type m = Mlp then Some (linear_out_bias m) else None) concat_c) (\<lambda>h.
        bind_err (view_3d h batch target_l dm) (\<lambda>attn_h.
        Inr (Some (if attn_type m = General \<or> attn_type m = Dot then tanh3 fp attn_h else attn_h))))))
      else Inr None)"

text \<open>Lines 245-276: the shape of the results and the checks of their sizes.\<close>

definition finish ::
  "bool \<Rightarrow> nat \<Rightarrow> nat \<Rightarrow> nat \<Rightarrow> nat \<Rightarrow> tfloat tensor3 \<Rightarrow> tfloat tensor3 option \<Rightarrow> tfloat tensor3
     \<Rightarrow> error + fwd_out" where
  "finish one_step batch target_l source_l dm c attn_h align_vectors =
     (if one_step then
        bind_err (squeeze1 c) (\<lambda>c'.
        bind_err (case attn_h of
                    None \<Rightarrow> Inr (None, rows c', cols c')
                  | Some h \<Rightarrow> bind_err (squeeze1 h) (\<lambda>h'. Inr (Some h', rows h', cols h')))
          (\<lambda>(attn_h', batch', dm').
        bind_err (aeq [batch, batch']) (\<lambda>_.
        bind_err (aeq [dm, dm']) (\<lambda>_.
        bind_err (squeeze1 align_vectors) (\<lambda>align_vectors'.
        bind_err (aeq [batch, rows align_vectors']) (\<lambda>_.
        bind_err (aeq [source_l, cols align_vectors']) (\<lambda>_.
        Inr (OneStep c' attn_h' align_vectors'))))))))
      else
        (let c' = transpose01 c;
             attn_h' = map_option transpose01 attn_h;
             sized = (case attn_h' of None \<Rightarrow> c' | Some h' \<Rightarrow> h');
             align_vectors' = transpose01 align_vectors
         in
         bind_err (aeq [target_l, d0 sized]) (\<lambda>_.
         bind_err (aeq [batch, d1 sized]) (\<lambda>_.
         bind_err (aeq [dm, d2 sized]) (\<lambda>_.
         bind_err (aeq [target_l, d0 align_vectors']) (\<lambda>_.
         bind_err (aeq [batch, d1 align_vectors']) (\<lambda>_.
         bind_err (aeq [source_l, d2 align_vectors']) (\<lambda>_.
         Inr (MultiStep c' attn_h' align_vectors')))))))))"

text \<open>Lines 197-276, with \<^verbatim>\<open>memory_bank\<close> the tensor that name is bound to after
  line 195.\<close>

definition attend ::
  "arith \<Rightarrow> attention \<Rightarrow> (tfloat tensor2 \<Rightarrow> tfloat tensor2) \<Rightarrow> bool \<Rightarrow> tfloat tensor3 \<Rightarrow> tfloat tensor3
     \<Rightarrow> int list \<Rightarrow> tfloat tensor3 \<Rightarrow> (int tensor2 \<times> int list) option \<Rightarrow> error + fwd_out" where
  "attend fp m sparsemax one_step source memory_bank memory_lengths utr_align_vectors src_word_utr_ids =
     (let batch = d0 memory_bank; source_l = d1 memory_bank; dm = d2 memory_bank;
          target_l = d1 source
      in
      bind_err (word_attention fp m sparsemax source memory_bank memory_lengths) (\<lambda>align_vectors.
      bind_err (hre_rescale fp m align_vectors memory_lengths utr_align_vectors src_word_utr_ids target_l)
        (\<lambda>align_vectors.
      bind_err (bmm fp align_vectors memory_bank) (\<lambda>c.
      bind_err (project_out fp m c source batch target_l dm) (\<lambda>attn_h.
      finish one_step batch target_l source_l dm c attn_h align_vectors)))))"

text \<open>Lines 166-173: a two-dimensional \<^verbatim>\<open>source\<close> or \<^verbatim>\<open>utr_align_vectors\<close> gets
  a middle dimension of size 1.\<close>

definition promote :: "ftensor \<Rightarrow> tfloat tensor3" where
  "promote x = (case x of T2 q \<Rightarrow> unsqueeze1 q | T3 q \<Rightarrow> q)"

text \<open>
  \<^verbatim>\<open>forward\<close>. The first component of the result is the caller's \<^verbatim>\<open>memory_bank\<close>
  buffer after the call, the second what the call returns or raises. The arguments are
  taken to be separate buffers; \<^verbatim>\<open>utr_position_tuple\<close> is never read and is left out.
\<close>

definition forward ::
  "arith \<Rightarrow> attention \<Rightarrow> (tfloat tensor2 \<Rightarrow> tfloat tensor2) \<Rightarrow> ftensor \<Rightarrow> tfloat tensor3
     \<Rightarrow> int list option \<Rightarrow> tfloat tensor2 option \<Rightarrow> ftensor option
     \<Rightarrow> (int tensor2 \<times> int list) option \<Rightarrow> tfloat tensor3 \<times> (error + fwd_out)" where
  "forward fp m sparsemax source memory_bank memory_lengths coverage' utr_align_vectors src_word_utr_ids =
     (let one_step = (case source of T2 q \<Rightarrow> True | T3 q \<Rightarrow> False);
          source = promote source
      in
      case utr_align_vectors of
        None \<Rightarrow> (memory_bank, Inl AttributeError)
      | Some u \<Rightarrow>
          (let utr_align_vectors = promote u in
           case check_inputs m source memory_bank utr_align_vectors memory_lengths coverage' of
             Inl e \<Rightarrow> (memory_bank, Inl e)
           | Inr lengths \<Rightarrow>
               (case inject_coverage fp m memory_bank coverage' of
                  Inl e \<Rightarrow> (memory_bank, Inl e)
                | Inr (buffer, memory_bank) \<Rightarrow>
                    (buffer, attend fp m sparsemax one_step source memory_bank lengths
                               utr_align_vectors src_word_utr_ids))))"

section \<open>Vocabulary of the properties\<close>

text \<open>Tensors and weights without infinities and NaN.\<close>

definition finite2 :: "tfloat tensor2 \<Rightarrow> bool" where
  "finite2 x = (\<forall>n<rows x. \<forall>k<cols x. is_fin (at2 x n k))"

definition finite3 :: "tfloat tensor3 \<Rightarrow> bool" where
  "finite3 x = (\<forall>i<d0 x. \<forall>j<d1 x. \<forall>k<d2 x. is_fin (at3 x i j k))"

definition finite_weights :: "attention \<Rightarrow> bool" where
  "finite_weights m =
     (\<forall>i j. is_fin (linear_in m i j) \<and> is_fin (linear_context m i j) \<and> is_fin (linear_query m i j)
          \<and> is_fin (linear_query_bias m i) \<and> is_fin (v m i j) \<and> is_fin (linear_out m i j)
          \<and> is_fin (linear_out_bias m i) \<and> is_fin (linear_cover m i j))"

definition finite_coverage :: "tfloat tensor2 option \<Rightarrow> bool" where
  "finite_coverage c = (case c of None \<Rightarrow> True | Some cov \<Rightarrow> finite2 cov)"

text \<open>The length the mask of line 202 gives batch element \<open>b\<close> (a lengths vector of
  one element is broadcast over the batch).\<close>

definition length_of :: "int list \<Rightarrow> nat \<Rightarrow> int" where
  "length_of memory_lengths b = memory_lengths ! bc_idx (length memory_lengths) b"

text \<open>The returned context vector and attention distribution of batch element \<open>b\<close> at
  target step \<open>t\<close>, in either output shape.\<close>

fun out_c :: "fwd_out \<Rightarrow> nat \<Rightarrow> nat \<Rightarrow> nat \<Rightarrow> tfloat" where
  "out_c (OneStep c attn_h align_vectors) b t k = at2 c b k"
| "out_c (MultiStep c attn_h align_vectors) b t k = at3 c t b k"

fun out_align :: "fwd_out \<Rightarrow> nat \<Rightarrow> nat \<Rightarrow> nat \<Rightarrow> tfloat" where
  "out_align (OneStep c attn_h align_vectors) b t s = at2 align_vectors b s"
| "out_align (MultiStep c attn_h align_vectors) b t s = at3 align_vectors t b s"

text \<open>
  The values \<^verbatim>\<open>forward\<close> holds in \<^verbatim>\<open>word_align\<close> after line 199 (the raw scores),
  in \<^verbatim>\<open>align_vectors\<close> after line 211 (the word-level distribution, before any
  rescaling) and in \<^verbatim>\<open>norm_term\<close> after line 228, as functions of the arguments of a
  call that has passed the checks of lines 172-190.
\<close>

definition raw_scores ::
  "arith \<Rightarrow> attention \<Rightarrow> ftensor \<Rightarrow> tfloat tensor3 \<Rightarrow> tfloat tensor2 option
     \<Rightarrow> error + tfloat tensor3" where
  "raw_scores fp m source memory_bank coverage' =
     bind_err (inject_coverage fp m memory_bank coverage') (\<lambda>(buffer, memory_bank).
     score fp m (promote source) memory_bank)"

definition word_level ::
  "arith \<Rightarrow> attention \<Rightarrow> (tfloat tensor2 \<Rightarrow> tfloat tensor2) \<Rightarrow> ftensor \<Rightarrow> tfloat tensor3 \<Rightarrow> int list
     \<Rightarrow> tfloat tensor2 option \<Rightarrow> error + tfloat tensor3" where
  "word_level fp m sparsemax source memory_bank memory_lengths coverage' =
     bind_err (inject_coverage fp m memory_bank coverage') (\<lambda>(buffer, memory_bank).
     word_attention fp m sparsemax (promote source) memory_bank memory_lengths)"

definition norm_term ::
  "arith \<Rightarrow> attention \<Rightarrow> (tfloat tensor2 \<Rightarrow> tfloat tensor2) \<Rightarrow> ftensor \<Rightarrow> tfloat tensor3 \<Rightarrow> int list
     \<Rightarrow> tfloat tensor2 option \<Rightarrow> ftensor \<Rightarrow> (int tensor2 \<times> int list) option
     \<Rightarrow> error + tfloat tensor3" where
  "norm_term fp m sparsemax source memory_bank memory_lengths coverage' utr_align_vectors src_word_utr_ids =
     bind_err (word_level fp m sparsemax source memory_bank memory_lengths coverage') (\<lambda>align_vectors.
     bind_err (reweight fp align_vectors memory_lengths (promote utr_align_vectors) src_word_utr_ids
                 (d1 (promote source))) (\<lambda>align_vectors.
     Inr (sum_last fp align_vectors)))"

text \<open>
  Modelled from the spec: \<^verbatim>\<open>sparsemax\<close> is not among the sources. The spec asks of
  an all-masked row: ``if length is 0, the resulting distribution is all-zero''.
\<close>

definition zero_on_masked :: "(tfloat tensor2 \<Rightarrow> tfloat tensor2) \<Rightarrow> bool" where
  "zero_on_masked sparsemax =
     (\<forall>x. rows (sparsemax x) = rows x \<and> cols (sparsemax x) = cols x \<and>
          (\<forall>n<rows x. (\<forall>k<cols x. at2 x n k = NInf) \<longrightarrow> (\<forall>k<cols x. at2 (sparsemax x) n k = Fin 0)))"



text \<open>Two results of \<^verbatim>\<open>score\<close> agree: the same error, or tensors of one shape with the
  same elements.\<close>

definition same_scores :: "error + tfloat tensor3 \<Rightarrow> error + tfloat tensor3 \<Rightarrow> bool" where
  "same_scores r r' =
     (case r of
        Inl e \<Rightarrow> r' = Inl e
      | Inr w \<Rightarrow>
          (case r' of
             Inl e' \<Rightarrow> False
           | Inr w' \<Rightarrow> d0 w = d0 w' \<and> d1 w = d1 w' \<and> d2 w = d2 w' \<and>
               (\<forall>b<d0 w. \<forall>t<d1 w. \<forall>s<d2 w. at3 w b t s = at3 w' b t s)))"

text \<open>The results of a one-step call and of a multi-step call with one target step hold
  the same numbers: \<open>(batch, dim)\<close> against \<open>(1, batch, dim)\<close>.\<close>

definition same_numbers2 :: "tfloat tensor2 \<Rightarrow> tfloat tensor3 \<Rightarrow> bool" where
  "same_numbers2 x y =
     (d0 y = 1 \<and> d1 y = rows x \<and> d2 y = cols x \<and> (\<forall>b k. at2 x b k = at3 y 0 b k))"

definition same_numbers :: "fwd_out \<Rightarrow> fwd_out \<Rightarrow> bool" where
  "same_numbers out out' =
     (case out of
        MultiStep c attn_h align_vectors \<Rightarrow> False
      | OneStep c attn_h align_vectors \<Rightarrow>
          (case out' of
             OneStep c' attn_h' align_vectors' \<Rightarrow> False
           | MultiStep c' attn_h' align_vectors' \<Rightarrow>
               same_numbers2 c c' \<and> same_numbers2 align_vectors align_vectors' \<and>
               (case attn_h of
                  None \<Rightarrow> attn_h' = None
                | Some h \<Rightarrow> (case attn_h' of None \<Rightarrow> False | Some h' \<Rightarrow> same_numbers2 h h'))))"

section \<open>Example calls\<close>

text \<open>Concrete tensors and modules, for evaluating the model on explicit calls.\<close>

definition const2 :: "nat \<Rightarrow> nat \<Rightarrow> real \<Rightarrow> tfloat tensor2" where
  "const2 r c x = \<lparr>rows = r, cols = c, at2 = (\<lambda>n k. Fin x)\<rparr>"

definition const3 :: "nat \<Rightarrow> nat \<Rightarrow> nat \<Rightarrow> real \<Rightarrow> tfloat tensor3" where
  "const3 a b c x = \<lparr>d0 = a, d1 = b, d2 = c, at3 = (\<lambda>i j k. Fin x)\<rparr>"

text \<open>A module as \<^verbatim>\<open>SeqHREWordGlobalAttention(dim, attn_type=...,
  attn_func=..., seqHRE_attn_rescale=...)\<close> makes it, every weight set to 0.\<close>

definition module :: "nat \<Rightarrow> attn_type \<Rightarrow> attn_func \<Rightarrow> bool \<Rightarrow> attention" where
  "module n ty fn rescale =
     \<lparr>mdim = n, seqHRE_attn_rescale = rescale, attn_type = ty, attn_func = fn,
      output_attn_h = False, coverage = False,
      linear_in = (\<lambda>i j. Fin 0), linear_context = (\<lambda>i j. Fin 0), linear_query = (\<lambda>i j. Fin 0),
      linear_query_bias = (\<lambda>i. Fin 0), v = (\<lambda>i j. Fin 0), linear_out = (\<lambda>i j. Fin 0),
      linear_out_bias = (\<lambda>i. Fin 0), linear_cover = (\<lambda>i j. Fin 0)\<rparr>"

definition units :: "nat \<Rightarrow> nat \<Rightarrow> int \<Rightarrow> int tensor2" where
  "units r c u = \<lparr>rows = r, cols = c, at2 = (\<lambda>b s. u)\<rparr>"

text \<open>A coarse alignment over two units, for one batch element and one target step: all
  the probability is on unit 0.\<close>

definition unit0_only :: "tfloat tensor3" where
  "unit0_only = \<lparr>d0 = 1, d1 = 1, d2 = 2, at3 = (\<lambda>b t u. if u = 0 then Fin 1 else Fin 0)\<rparr>"

text \<open>The unit assignment of a batch of one sequence of two positions: a word of unit 1,
  then one padded position, which carries unit 0.\<close>

definition unit1_then_pad :: "int tensor2" where
  "unit1_then_pad = \<lparr>rows = 1, cols = 2, at2 = (\<lambda>b s. if s = 0 then 1 else 0)\<rparr>"

text \<open>A normalization that returns zeros only: it meets what the spec asks of an
  all-masked row.\<close>

definition zeros_like :: "tfloat tensor2 \<Rightarrow> tfloat tensor2" where
  "zeros_like x = x\<lparr>at2 := (\<lambda>n k. Fin 0)\<rparr>"

text \<open>A query of one target step and two features, the first of them \<open>+\<infinity>\<close>.\<close>

definition inf_then_zero :: "tfloat tensor3" where
  "inf_then_zero = \<lparr>d0 = 1, d1 = 1, d2 = 2, at3 = (\<lambda>b t k. if k = 0 then PInf else Fin 0)\<rparr>"

section \<open>Properties\<close>

lemma bind_err_Inr [simp]: "bind_err (Inr x) f = f x"
  by (simp add: bind_err_def)

lemma bind_err_Inl [simp]: "bind_err (Inl e) f = Inl e"
  by (simp add: bind_err_def)

subsection \<open>Element arithmetic and sums\<close>

lemma is_fin_iff: "is_fin x \<longleftrightarrow> (\<exists>r. x = Fin r)"
  by (cases x) simp_all

lemma exact_sel [simp]:
  "add_r exact a b = Fin (a + b)" "mul_r exact a b = Fin (a * b)" "div_r exact a b = Fin (a / b)"
  "exp_r exact a = Fin (exp a)" "tanh_r exact a = Fin (tanh a)"
  by (simp_all add: exact_def)

lemma ieee_exact: "ieee exact"
  unfolding ieee_def by (simp add: mult_right_mono divide_right_mono)

lemma ieee_add_not_NaN: "ieee fp \<Longrightarrow> add_r fp a b \<noteq> NaN"
  by (simp add: ieee_def)

lemma ieee_add_zero_left: "ieee fp \<Longrightarrow> add_r fp 0 a = Fin a"
  by (simp add: ieee_def)

lemma ieee_add_zero_right: "ieee fp \<Longrightarrow> add_r fp a 0 = Fin a"
  by (simp add: ieee_def)

lemma ieee_sub_self: "ieee fp \<Longrightarrow> add_r fp a (- a) = Fin 0"
  by (simp add: ieee_def)

lemma ieee_add_nonneg:
  "ieee fp \<Longrightarrow> 0 \<le> a \<Longrightarrow> 0 \<le> b \<Longrightarrow>
   add_r fp a b = PInf \<or> (\<exists>r. add_r fp a b = Fin r \<and> a \<le> r \<and> b \<le> r)"
  by (simp add: ieee_def)

lemma ieee_mul_not_NaN: "ieee fp \<Longrightarrow> mul_r fp a b \<noteq> NaN"
  by (simp add: ieee_def)

lemma ieee_mul_zero_left: "ieee fp \<Longrightarrow> mul_r fp 0 a = Fin 0"
  by (simp add: ieee_def)

lemma ieee_mul_zero_right: "ieee fp \<Longrightarrow> mul_r fp a 0 = Fin 0"
  by (simp add: ieee_def)

lemma ieee_mul_one_right: "ieee fp \<Longrightarrow> mul_r fp a 1 = Fin a"
  by (simp add: ieee_def)

lemma ieee_mul_mono: "ieee fp \<Longrightarrow> 0 \<le> u \<Longrightarrow> a \<le> a' \<Longrightarrow> fl_le (mul_r fp a u) (mul_r fp a' u)"
  by (simp add: ieee_def)

lemma ieee_div_not_NaN: "ieee fp \<Longrightarrow> b \<noteq> 0 \<Longrightarrow> div_r fp a b \<noteq> NaN"
  by (simp add: ieee_def)

lemma ieee_div_zero: "ieee fp \<Longrightarrow> b \<noteq> 0 \<Longrightarrow> div_r fp 0 b = Fin 0"
  by (simp add: ieee_def)

lemma ieee_div_mono: "ieee fp \<Longrightarrow> 0 < n \<Longrightarrow> a \<le> a' \<Longrightarrow> fl_le (div_r fp a n) (div_r fp a' n)"
  by (simp add: ieee_def)

lemma ieee_exp: "ieee fp \<Longrightarrow> exp_r fp a = PInf \<or> (\<exists>r. exp_r fp a = Fin r \<and> 0 \<le> r)"
  by (simp add: ieee_def)

lemma ieee_exp_zero: "ieee fp \<Longrightarrow> exp_r fp 0 = Fin 1"
  by (simp add: ieee_def)

lemma ieee_tanh: "ieee fp \<Longrightarrow> is_fin (tanh_r fp a)"
  by (simp add: ieee_def)

lemma fl_le_zero_cases: "fl_le (Fin 0) y \<Longrightarrow> y = PInf \<or> (\<exists>r. y = Fin r \<and> 0 \<le> r)"
  by (cases y) simp_all

lemma fl_add_fin_only: "is_fin (fl_add fp x y) \<Longrightarrow> is_fin x \<and> is_fin y"
  by (cases x; cases y) simp_all

lemma fl_mul_fin_only: "is_fin (fl_mul fp x (Fin u)) \<Longrightarrow> 0 < u \<Longrightarrow> is_fin x"
  by (cases x) simp_all

lemma fl_add_NaN_right [simp]: "fl_add fp x NaN = NaN"
  by (cases x) simp_all

lemma fl_mul_NaN_right [simp]: "fl_mul fp x NaN = NaN"
  by (cases x) simp_all

lemma fl_div_NaN_right [simp]: "fl_div fp x NaN = NaN"
  by (cases x) simp_all

lemma fl_max_NaN_right [simp]: "fl_max x NaN = NaN"
  by (cases x) simp_all

lemma fl_add_not_NaN:
  "ieee fp \<Longrightarrow> is_fin x \<Longrightarrow> y \<noteq> NaN \<Longrightarrow> fl_add fp x y \<noteq> NaN"
  by (cases x; cases y) (simp_all add: ieee_add_not_NaN)

lemma fl_mul_fin_not_NaN:
  "ieee fp \<Longrightarrow> is_fin x \<Longrightarrow> is_fin y \<Longrightarrow> fl_mul fp x y \<noteq> NaN"
  by (cases x; cases y) (simp_all add: ieee_mul_not_NaN)

lemma fl_tanh_fin: "ieee fp \<Longrightarrow> x \<noteq> NaN \<Longrightarrow> is_fin (fl_tanh fp x)"
  by (cases x) (simp_all add: ieee_tanh)

lemma fl_mul_zero_cases:
  "ieee fp \<Longrightarrow> fl_mul fp (Fin 0) y = Fin 0 \<or> fl_mul fp (Fin 0) y = NaN"
  by (cases y) (simp_all add: ieee_mul_zero_left)

lemma fl_mul_zero_fin: "ieee fp \<Longrightarrow> is_fin (fl_mul fp (Fin 0) y) \<Longrightarrow> fl_mul fp (Fin 0) y = Fin 0"
  using fl_mul_zero_cases [of fp y] by auto

lemma sum_upto_cong: "(\<And>i. i < n \<Longrightarrow> f i = g i) \<Longrightarrow> sum_upto fp n f = sum_upto fp n g"
  by (induction n) simp_all

lemma sum_upto_is_fin: "is_fin (sum_upto fp n f) \<Longrightarrow> i < n \<Longrightarrow> is_fin (f i)"
proof (induction n)
  case 0
  then show ?case by simp
next
  case (Suc n)
  have "is_fin (sum_upto fp n f) \<and> is_fin (f n)"
    using Suc.prems(1) fl_add_fin_only [of fp "sum_upto fp n f" "f n"] by simp
  then show ?case using Suc by (cases "i = n") auto
qed

lemma sum_upto_NaN: "i < n \<Longrightarrow> f i = NaN \<Longrightarrow> sum_upto fp n f = NaN"
proof (induction n)
  case 0
  then show ?case by simp
next
  case (Suc n)
  show ?case
  proof (cases "i = n")
    case True
    then show ?thesis using Suc.prems by simp
  next
    case False
    then have "sum_upto fp n f = NaN" using Suc by simp
    then show ?thesis by simp
  qed
qed

lemma sum_upto_zeros:
  "ieee fp \<Longrightarrow> (\<And>i. i < n \<Longrightarrow> f i = Fin 0) \<Longrightarrow> sum_upto fp n f = Fin 0"
  by (induction n) (simp_all add: ieee_add_zero_left)

lemma sum_upto_nonneg:
  assumes "ieee fp" and "\<And>i. i < n \<Longrightarrow> f i = PInf \<or> (\<exists>r. f i = Fin r \<and> 0 \<le> r)"
  shows "sum_upto fp n f = PInf \<or>
         (\<exists>z. sum_upto fp n f = Fin z \<and> 0 \<le> z \<and> (\<forall>i<n. \<forall>r. f i = Fin r \<longrightarrow> r \<le> z))"
  using assms(2)
proof (induction n)
  case 0
  then show ?case by simp
next
  case (Suc n)
  have ih: "sum_upto fp n f = PInf \<or>
            (\<exists>z. sum_upto fp n f = Fin z \<and> 0 \<le> z \<and> (\<forall>i<n. \<forall>r. f i = Fin r \<longrightarrow> r \<le> z))"
    using Suc by simp
  have fn: "f n = PInf \<or> (\<exists>r. f n = Fin r \<and> 0 \<le> r)" using Suc.prems by simp
  show ?case
  proof (cases "sum_upto fp n f = PInf \<or> f n = PInf")
    case True
    then have "sum_upto fp (Suc n) f = PInf" using ih fn by auto
    then show ?thesis by simp
  next
    case False
    then obtain z r where z: "sum_upto fp n f = Fin z" "0 \<le> z"
        "\<forall>i<n. \<forall>r. f i = Fin r \<longrightarrow> r \<le> z" and r: "f n = Fin r" "0 \<le> r"
      using ih fn by auto
    have s: "sum_upto fp (Suc n) f = add_r fp z r" using z r by simp
    from ieee_add_nonneg [OF assms(1) z(2) r(2)]
    show ?thesis
    proof
      assume "add_r fp z r = PInf"
      then show ?thesis using s by simp
    next
      assume "\<exists>q. add_r fp z r = Fin q \<and> z \<le> q \<and> r \<le> q"
      then obtain q where q: "add_r fp z r = Fin q" "z \<le> q" "r \<le> q" by auto
      have "\<forall>i<Suc n. \<forall>r'. f i = Fin r' \<longrightarrow> r' \<le> q"
      proof (intro allI impI)
        fix i r' assume i: "i < Suc n" and e: "f i = Fin r'"
        show "r' \<le> q"
        proof (cases "i = n")
          case True
          then show ?thesis using e r q by simp
        next
          case False
          then have "i < n" using i by simp
          then have "r' \<le> z" using e z(3) by blast
          then show ?thesis using q by simp
        qed
      qed
      moreover have "0 \<le> q" using z(2) q(2) by simp
      ultimately show ?thesis using s q(1) by simp
    qed
  qed
qed


lemma max_upto_NaN: "i < n \<Longrightarrow> f i = NaN \<Longrightarrow> max_upto n f = NaN"
proof (induction n)
  case 0
  then show ?case by simp
next
  case (Suc n)
  show ?case
  proof (cases "i = n")
    case True
    then show ?thesis using Suc.prems by simp
  next
    case False
    then have "max_upto n f = NaN" using Suc by simp
    then show ?thesis by simp
  qed
qed

lemma max_upto_not_NaN: "(\<And>i. i < n \<Longrightarrow> f i \<noteq> NaN) \<Longrightarrow> max_upto n f \<noteq> NaN"
proof (induction n)
  case 0
  then show ?case by simp
next
  case (Suc n)
  have "max_upto n f \<noteq> NaN" "f n \<noteq> NaN" using Suc by simp_all
  then show ?case by (cases "max_upto n f"; cases "f n") simp_all
qed

lemma max_upto_PInf:
  "(\<And>i. i < n \<Longrightarrow> f i \<noteq> NaN) \<Longrightarrow> i < n \<Longrightarrow> f i = PInf \<Longrightarrow> max_upto n f = PInf"
proof (induction n)
  case 0
  then show ?case by simp
next
  case (Suc n)
  have m: "max_upto n f \<noteq> NaN" using Suc.prems(1) by (intro max_upto_not_NaN) simp
  have fn: "f n \<noteq> NaN" using Suc.prems(1) by simp
  show ?case
  proof (cases "i = n")
    case True
    then show ?thesis using Suc.prems m by (cases "max_upto n f") simp_all
  next
    case False
    then have "max_upto n f = PInf" using Suc by simp
    then show ?thesis using fn by (cases "f n") simp_all
  qed
qed

lemma max_upto_NInf: "(\<And>i. i < n \<Longrightarrow> f i = NInf) \<Longrightarrow> max_upto n f = NInf"
  by (induction n) simp_all

lemma max_upto_cases:
  assumes "\<And>i. i < n \<Longrightarrow> is_fin (f i) \<or> f i = NInf"
  shows "(max_upto n f = NInf \<and> (\<forall>i<n. f i = NInf)) \<or>
         (\<exists>M. max_upto n f = Fin M \<and> (\<exists>i<n. f i = Fin M) \<and> (\<forall>i<n. \<forall>r. f i = Fin r \<longrightarrow> r \<le> M))"
  using assms
proof (induction n)
  case 0
  then show ?case by simp
next
  case (Suc n)
  have ih: "(max_upto n f = NInf \<and> (\<forall>i<n. f i = NInf)) \<or>
         (\<exists>M. max_upto n f = Fin M \<and> (\<exists>i<n. f i = Fin M) \<and> (\<forall>i<n. \<forall>r. f i = Fin r \<longrightarrow> r \<le> M))"
    using Suc by simp
  have fn: "is_fin (f n) \<or> f n = NInf" using Suc.prems by simp
  from ih show ?case
  proof
    assume a: "max_upto n f = NInf \<and> (\<forall>i<n. f i = NInf)"
    from fn show ?thesis
    proof
      assume "is_fin (f n)"
      then obtain r where r: "f n = Fin r" by (auto simp: is_fin_iff)
      have "max_upto (Suc n) f = Fin r" using a r by simp
      moreover have "\<exists>i<Suc n. f i = Fin r" using r by auto
      moreover have "\<forall>i<Suc n. \<forall>r'. f i = Fin r' \<longrightarrow> r' \<le> r"
        using a r by (auto simp: less_Suc_eq)
      ultimately show ?thesis by blast
    next
      assume "f n = NInf"
      then show ?thesis using a by (auto simp: less_Suc_eq)
    qed
  next
    assume "\<exists>M. max_upto n f = Fin M \<and> (\<exists>i<n. f i = Fin M) \<and> (\<forall>i<n. \<forall>r. f i = Fin r \<longrightarrow> r \<le> M)"
    then obtain M j where M: "max_upto n f = Fin M" "j < n" "f j = Fin M"
        "\<forall>i<n. \<forall>r. f i = Fin r \<longrightarrow> r \<le> M" by auto
    from fn show ?thesis
    proof
      assume "is_fin (f n)"
      then obtain r where r: "f n = Fin r" by (auto simp: is_fin_iff)
      have m: "max_upto (Suc n) f = Fin (max M r)" using M r by simp
      have e: "\<exists>i<Suc n. f i = Fin (max M r)"
      proof (cases "M \<le> r")
        case True
        then show ?thesis using r by (auto simp: max_def)
      next
        case False
        then have "f j = Fin (max M r)" using M(3) by (simp add: max_def)
        then show ?thesis using M(2) less_Suc_eq by blast
      qed
      have "\<forall>i<Suc n. \<forall>r'. f i = Fin r' \<longrightarrow> r' \<le> max M r"
      proof (intro allI impI)
        fix i r' assume i: "i < Suc n" and e': "f i = Fin r'"
        show "r' \<le> max M r"
        proof (cases "i = n")
          case True
          then show ?thesis using e' r by simp
        next
          case False
          then have "i < n" using i by simp
          then have "r' \<le> M" using e' M(4) by blast
          then show ?thesis by simp
        qed
      qed
      then show ?thesis using m e by blast
    next
      assume n: "f n = NInf"
      have m: "max_upto (Suc n) f = Fin M" using M n by simp
      have e: "\<exists>i<Suc n. f i = Fin M" using M(2,3) less_Suc_eq by blast
      have "\<forall>i<Suc n. \<forall>r. f i = Fin r \<longrightarrow> r \<le> M"
        using M(4) n by (auto simp: less_Suc_eq)
      then show ?thesis using m e by blast
    qed
  qed
qed

lemma all_upto_iff: "all_upto n P \<longleftrightarrow> (\<forall>i<n. P i)"
  by (induction n) (auto simp: less_Suc_eq)

subsection \<open>Softmax of one row\<close>

lemma fl_sub_NaN [simp]: "fl_sub fp x NaN = NaN"
  by (simp add: fl_sub_def)

lemma fl_sub_PInf_PInf [simp]: "fl_sub fp PInf PInf = NaN"
  by (simp add: fl_sub_def)

lemma fl_sub_NInf_NInf [simp]: "fl_sub fp NInf NInf = NaN"
  by (simp add: fl_sub_def)

lemma fl_sub_NInf_Fin [simp]: "fl_sub fp NInf (Fin m) = NInf"
  by (simp add: fl_sub_def)

lemma fl_sub_Fin_Fin [simp]: "fl_sub fp (Fin a) (Fin m) = add_r fp a (- m)"
  by (simp add: fl_sub_def)

text \<open>A row that holds NaN or \<open>+\<infinity>\<close>, or \<open>-\<infinity>\<close> only, comes out of softmax as NaN.\<close>

lemma softmax_row_NaN:
  assumes i: "i < n"
    and bad: "(\<exists>j<n. x j = NaN) \<or> (\<exists>j<n. x j = PInf) \<or> (\<forall>j<n. x j = NInf)"
  shows "softmax_row fp n x i = NaN"
proof -
  let ?m = "max_upto n x"
  have "\<exists>j<n. fl_exp fp (fl_sub fp (x j) ?m) = NaN"
  proof (cases "\<exists>j<n. x j = NaN")
    case True
    then have "?m = NaN" using max_upto_NaN by blast
    then show ?thesis using i by auto
  next
    case False
    note noNaN = this
    show ?thesis
    proof (cases "\<exists>j<n. x j = PInf")
      case True
      then obtain j where j: "j < n" "x j = PInf" by auto
      have "?m = PInf" using noNaN j by (intro max_upto_PInf [of n x j]) auto
      then have "fl_exp fp (fl_sub fp (x j) ?m) = NaN" using j by simp
      then show ?thesis using j by blast
    next
      case False
      then have a: "\<forall>j<n. x j = NInf" using bad noNaN by blast
      then have "?m = NInf" by (simp add: max_upto_NInf)
      then have "fl_exp fp (fl_sub fp (x i) ?m) = NaN" using a i by simp
      then show ?thesis using i by blast
    qed
  qed
  then obtain j where "j < n" "fl_exp fp (fl_sub fp (x j) ?m) = NaN" by auto
  then have "sum_upto fp n (\<lambda>j. fl_exp fp (fl_sub fp (x j) ?m)) = NaN"
    by (intro sum_upto_NaN [of j]) auto
  then show ?thesis by (simp add: softmax_row_def Let_def)
qed

text \<open>The other rows: numbers and \<open>-\<infinity>\<close>, with a number among them.\<close>

lemma softmax_row_terms:
  assumes fp: "ieee fp"
    and row: "\<And>j. j < n \<Longrightarrow> is_fin (x j) \<or> x j = NInf"
    and some: "\<exists>j<n. is_fin (x j)"
  shows "\<exists>M. max_upto n x = Fin M \<and>
           (\<forall>j<n. fl_exp fp (fl_sub fp (x j) (Fin M)) = PInf \<or>
                   (\<exists>r. fl_exp fp (fl_sub fp (x j) (Fin M)) = Fin r \<and> 0 \<le> r)) \<and>
           (\<forall>j<n. x j = NInf \<longrightarrow> fl_exp fp (fl_sub fp (x j) (Fin M)) = Fin 0) \<and>
           (\<exists>j<n. fl_exp fp (fl_sub fp (x j) (Fin M)) = Fin 1)"
proof -
  from max_upto_cases [of n x] row some
  obtain M k where M: "max_upto n x = Fin M" "k < n" "x k = Fin M"
    by (metis is_fin.simps(3))
  have 1: "fl_exp fp (fl_sub fp (x j) (Fin M)) = PInf \<or>
           (\<exists>r. fl_exp fp (fl_sub fp (x j) (Fin M)) = Fin r \<and> 0 \<le> r)" if "j < n" for j
  proof -
    from row [OF that] show ?thesis
    proof
      assume "is_fin (x j)"
      then obtain a where a: "x j = Fin a" by (auto simp: is_fin_iff)
      have "add_r fp a (- M) \<noteq> NaN" using fp by (rule ieee_add_not_NaN)
      then show ?thesis using a ieee_exp [OF fp]
        by (cases "add_r fp a (- M)") simp_all
    next
      assume "x j = NInf"
      then show ?thesis by simp
    qed
  qed
  have 2: "fl_exp fp (fl_sub fp (x k) (Fin M)) = Fin 1"
    using M(3) by (simp add: ieee_sub_self [OF fp] ieee_exp_zero [OF fp])
  show ?thesis using M 1 2 by auto
qed

lemma softmax_row_sum:
  assumes fp: "ieee fp"
    and row: "\<And>j. j < n \<Longrightarrow> is_fin (x j) \<or> x j = NInf"
    and some: "\<exists>j<n. is_fin (x j)"
  shows "sum_upto fp n (\<lambda>j. fl_exp fp (fl_sub fp (x j) (max_upto n x))) = PInf \<or>
         (\<exists>z. sum_upto fp n (\<lambda>j. fl_exp fp (fl_sub fp (x j) (max_upto n x))) = Fin z \<and> 1 \<le> z)"
proof -
  from softmax_row_terms [OF assms] obtain M k where
    M: "max_upto n x = Fin M"
    and t: "\<forall>j<n. fl_exp fp (fl_sub fp (x j) (Fin M)) = PInf \<or>
                   (\<exists>r. fl_exp fp (fl_sub fp (x j) (Fin M)) = Fin r \<and> 0 \<le> r)"
    and k: "k < n" "fl_exp fp (fl_sub fp (x k) (Fin M)) = Fin 1"
    by auto
  let ?e = "\<lambda>j. fl_exp fp (fl_sub fp (x j) (Fin M))"
  have "sum_upto fp n ?e = PInf \<or>
        (\<exists>z. sum_upto fp n ?e = Fin z \<and> 0 \<le> z \<and> (\<forall>i<n. \<forall>r. ?e i = Fin r \<longrightarrow> r \<le> z))"
    using t by (intro sum_upto_nonneg [OF fp]) auto
  then have "sum_upto fp n ?e = PInf \<or> (\<exists>z. sum_upto fp n ?e = Fin z \<and> 1 \<le> z)"
    using k by blast
  then show ?thesis using M by simp
qed

lemma softmax_row_values:
  assumes fp: "ieee fp"
    and row: "\<And>j. j < n \<Longrightarrow> is_fin (x j) \<or> x j = NInf"
    and some: "\<exists>j<n. is_fin (x j)"
    and i: "i < n"
  shows "(x i = NInf \<longrightarrow> softmax_row fp n x i = Fin 0) \<and>
         (\<forall>a. softmax_row fp n x i = Fin a \<longrightarrow> 0 \<le> a)"
proof -
  from softmax_row_terms [OF fp row some] obtain M where
    M: "max_upto n x = Fin M"
    and t: "\<forall>j<n. fl_exp fp (fl_sub fp (x j) (Fin M)) = PInf \<or>
                   (\<exists>r. fl_exp fp (fl_sub fp (x j) (Fin M)) = Fin r \<and> 0 \<le> r)"
    and z: "\<forall>j<n. x j = NInf \<longrightarrow> fl_exp fp (fl_sub fp (x j) (Fin M)) = Fin 0"
    by auto
  let ?e = "\<lambda>j. fl_exp fp (fl_sub fp (x j) (Fin M))"
  let ?Z = "sum_upto fp n ?e"
  have v: "softmax_row fp n x i = fl_div fp (?e i) ?Z"
    using M by (simp add: softmax_row_def Let_def)
  have Z: "?Z = PInf \<or> (\<exists>z. ?Z = Fin z \<and> 1 \<le> z)"
    using softmax_row_sum [OF fp row some] M by simp
  have ei: "?e i = PInf \<or> (\<exists>r. ?e i = Fin r \<and> 0 \<le> r)" using t i by simp
  have 1: "softmax_row fp n x i = Fin 0" if "x i = NInf"
  proof -
    have "?e i = Fin 0" using z i that by simp
    then show ?thesis using v Z by (auto simp: ieee_div_zero [OF fp])
  qed
  have 2: "0 \<le> a" if a: "softmax_row fp n x i = Fin a" for a
  proof -
    from Z show ?thesis
    proof
      assume inf: "?Z = PInf"
      from ei show ?thesis
      proof
        assume "?e i = PInf"
        then show ?thesis using a v inf by simp
      next
        assume "\<exists>r. ?e i = Fin r \<and> 0 \<le> r"
        then show ?thesis using a v inf by auto
      qed
    next
      assume "\<exists>z. ?Z = Fin z \<and> 1 \<le> z"
      then obtain z where zz: "?Z = Fin z" "1 \<le> z" by auto
      from ei show ?thesis
      proof
        assume "?e i = PInf"
        then show ?thesis using a v zz by simp
      next
        assume "\<exists>r. ?e i = Fin r \<and> 0 \<le> r"
        then obtain r where r: "?e i = Fin r" "0 \<le> r" by auto
        have d: "softmax_row fp n x i = div_r fp r z" using v r zz by simp
        have "fl_le (div_r fp 0 z) (div_r fp r z)"
          using zz(2) r(2) by (intro ieee_div_mono [OF fp]) simp_all
        then have "fl_le (Fin 0) (Fin a)"
          using d a zz(2) by (simp add: ieee_div_zero [OF fp])
        then show ?thesis by simp
      qed
    qed
  qed
  show ?thesis using 1 2 by blast
qed

text \<open>So a softmax row that holds a value other than NaN is exactly 0 wherever the
  scores were \<open>-\<infinity>\<close>, and its numbers are not negative.\<close>

lemma softmax_row_proper:
  assumes fp: "ieee fp" and i: "i < n" and v: "softmax_row fp n x i \<noteq> NaN"
  shows "(\<forall>j<n. is_fin (x j) \<or> x j = NInf) \<and> (\<exists>j<n. is_fin (x j))"
proof (rule ccontr)
  assume "\<not> ?thesis"
  then have "(\<exists>j<n. x j = NaN) \<or> (\<exists>j<n. x j = PInf) \<or> (\<forall>j<n. x j = NInf)"
    by (metis is_fin.elims(3))
  then have "softmax_row fp n x i = NaN" using i by (rule softmax_row_NaN [rotated])
  then show False using v by simp
qed

lemma softmax_row_zero:
  assumes fp: "ieee fp" and i: "i < n" and v: "softmax_row fp n x i \<noteq> NaN"
    and j: "j < n" "x j = NInf"
  shows "softmax_row fp n x j = Fin 0"
  using softmax_row_proper [OF fp i v] softmax_row_values [OF fp _ _ j(1)] j(2) by blast

lemma softmax_row_nonneg:
  assumes fp: "ieee fp" and i: "i < n" and v: "softmax_row fp n x i = Fin a"
  shows "0 \<le> a"
proof -
  have "softmax_row fp n x i \<noteq> NaN" using v by simp
  from softmax_row_proper [OF fp i this] softmax_row_values [OF fp _ _ i] v
  show ?thesis by blast
qed


lemma flat3_index:
  assumes "k < c" "d2 x = c" "d1 x = t"
  shows "flat3 x (n * c + k) = at3 x (n div t) (n mod t) k"
proof -
  have c: "0 < c" using assms by simp
  have 1: "(n * c + k) div c = n" using assms c by simp
  have 2: "(n * c + k) mod c = k" using assms by simp
  have 3: "(n * c + k) div (t * c) = n div t"
    using 1 by (metis div_mult2_eq mult.commute)
  show ?thesis using assms 1 2 3 by (simp add: flat3_def)
qed

lemma flat2_index:
  assumes "k < c" "cols y = c"
  shows "flat2 y (n * c + k) = at2 y n k"
  using assms by (simp add: flat2_def)


subsection \<open>The scores\<close>

lemma aeq2 [simp]: "aeq [a, b] = (if b = a then Inr () else Inl (AeqError [a, b]))"
  by (simp add: aeq_def)

lemma aeq3 [simp]:
  "aeq [a, b, c] = (if b = a \<and> c = a then Inr () else Inl (AeqError [a, b, c]))"
  by (simp add: aeq_def)

lemma bind_err_eq_Inr: "bind_err r f = Inr y \<longleftrightarrow> (\<exists>x. r = Inr x \<and> f x = Inr y)"
  by (cases r) simp_all

lemma view_2d_Inr:
  "view_2d x r c = Inr y \<longleftrightarrow>
     r * c = d0 x * d1 x * d2 x \<and> y = \<lparr>rows = r, cols = c, at2 = (\<lambda>n k. flat3 x (n * c + k))\<rparr>"
  by (auto simp: view_2d_def)

lemma view_3d_Inr:
  "view_3d y a b c = Inr z \<longleftrightarrow>
     a * b * c = rows y * cols y \<and>
     z = \<lparr>d0 = a, d1 = b, d2 = c, at3 = (\<lambda>i j k. flat2 y ((i * b + j) * c + k))\<rparr>"
  by (auto simp: view_3d_def)

lemma nn_linear_Inr:
  "nn_linear fp i out w bias x = Inr y \<longleftrightarrow>
     cols x = i \<and>
     y = \<lparr>rows = rows x, cols = out,
          at2 = (\<lambda>n out.
                  let y = sum_upto fp i (\<lambda>k. fl_mul fp (at2 x n k) (w out k))
                  in case bias of None \<Rightarrow> y | Some b \<Rightarrow> fl_add fp y (b out))\<rparr>"
  by (auto simp: nn_linear_def)

lemma bmm_Inr:
  "bmm fp a b = Inr c \<longleftrightarrow>
     d0 a = d0 b \<and> d2 a = d1 b \<and>
     c = \<lparr>d0 = d0 a, d1 = d1 a, d2 = d2 b,
          at3 = (\<lambda>i j k. sum_upto fp (d2 a) (\<lambda>l. fl_mul fp (at3 a i j l) (at3 b i l k)))\<rparr>"
  by (auto simp: bmm_def)

lemma score_shape:
  assumes "score fp m h_t h_s = Inr w"
  shows "d0 w = d0 h_t \<and> d1 w = d1 h_t \<and> d2 w = d1 h_s \<and>
         d0 h_s = d0 h_t \<and> d2 h_s = d2 h_t \<and> mdim m = d2 h_s"
  using assms
  by (auto simp: score_def Let_def bind_err_eq_Inr view_2d_Inr view_3d_Inr nn_linear_Inr bmm_Inr
        transpose12_def split: if_splits)



lemma score_dot:
  assumes "attn_type m = Dot" "score fp m h_t h_s = Inr w"
  shows "at3 w b t s = sum_upto fp (d2 h_t) (\<lambda>l. fl_mul fp (at3 h_t b t l) (at3 h_s b s l))"
  using assms
  by (auto simp: score_def Let_def bind_err_eq_Inr bmm_Inr transpose12_def split: if_splits)

lemma score_general:
  assumes "attn_type m = General" "score fp m h_t h_s = Inr w" "b < d0 h_t" "t < d1 h_t"
  shows "at3 w b t s =
         sum_upto fp (d2 h_t) (\<lambda>l.
           fl_mul fp (sum_upto fp (d2 h_t) (\<lambda>k. fl_mul fp (at3 h_t b t k) (linear_in m l k)))
                  (at3 h_s b s l))"
proof -
  let ?D = "d2 h_t" and ?T = "d1 h_t"
  have sh: "d0 h_s = d0 h_t" "d2 h_s = ?D" "mdim m = ?D"
    using score_shape [OF assms(2)] by simp_all
  define lin where "lin = \<lparr>rows = d0 h_t * ?T, cols = ?D,
      at2 = (\<lambda>n out. sum_upto fp ?D (\<lambda>k. fl_mul fp (flat3 h_t (n * ?D + k)) (linear_in m out k)))\<rparr>"
  define h' where "h' = \<lparr>d0 = d0 h_t, d1 = ?T, d2 = ?D,
      at3 = (\<lambda>i j k. flat2 lin ((i * ?T + j) * ?D + k))\<rparr>"
  have w: "bmm fp h' (transpose12 h_s) = Inr w"
    using assms(1,2) sh
    by (auto simp: score_def Let_def bind_err_eq_Inr view_2d_Inr view_3d_Inr nn_linear_Inr
          lin_def h'_def split: if_splits)
  have el: "at3 h' b t l = sum_upto fp ?D (\<lambda>k. fl_mul fp (at3 h_t b t k) (linear_in m l k))"
    if "l < ?D" for l
  proof -
    have "at3 h' b t l = at2 lin (b * ?T + t) l"
      using that by (simp add: h'_def flat2_index lin_def)
    also have "\<dots> = sum_upto fp ?D (\<lambda>k. fl_mul fp (flat3 h_t ((b * ?T + t) * ?D + k)) (linear_in m l k))"
      by (simp add: lin_def)
    also have "\<dots> = sum_upto fp ?D (\<lambda>k. fl_mul fp (at3 h_t b t k) (linear_in m l k))"
      using assms(4) by (intro sum_upto_cong) (simp add: flat3_index)
    finally show ?thesis .
  qed
  have "at3 w b t s = sum_upto fp ?D (\<lambda>l. fl_mul fp (at3 h' b t l) (at3 h_s b s l))"
    using w by (auto simp: bmm_Inr transpose12_def h'_def)
  also have "\<dots> = sum_upto fp ?D (\<lambda>l.
           fl_mul fp (sum_upto fp ?D (\<lambda>k. fl_mul fp (at3 h_t b t k) (linear_in m l k))) (at3 h_s b s l))"
    by (intro sum_upto_cong) (simp add: el)
  finally show ?thesis .
qed



lemma view_rows_Inr:
  "view_rows x c = Inr y \<longleftrightarrow>
     c \<noteq> 0 \<and> (d0 x * d1 x * d2 x) mod c = 0 \<and>
     y = \<lparr>rows = (d0 x * d1 x * d2 x) div c, cols = c, at2 = (\<lambda>n k. flat3 x (n * c + k))\<rparr>"
  by (auto simp: view_rows_def view_2d_Inr)

lemma finite3D: "finite3 x \<Longrightarrow> i < d0 x \<Longrightarrow> j < d1 x \<Longrightarrow> k < d2 x \<Longrightarrow> is_fin (at3 x i j k)"
  by (simp add: finite3_def)


subsection \<open>Missing inputs\<close>

lemma check_inputs_None: "\<exists>e. check_inputs m source memory_bank u None cov = Inl e"
  by (auto simp: check_inputs_def Let_def bind_err_def split: sum.splits)

text \<open>
  Claim C7. Every call needs \<^verbatim>\<open>utr_align_vectors\<close> and \<^verbatim>\<open>memory_lengths\<close>, whatever
  the configuration (also with \<^verbatim>\<open>seqHRE_attn_rescale\<close> off): a call without the
  coarse alignment ends with the AttributeError of line 172, and a call without either of
  the two ends with an exception and leaves the caller's memory bank as it was.
\<close>

theorem forward_requires_inputs:
  "(utr_align_vectors = None \<longrightarrow>
      forward fp m sparsemax source memory_bank memory_lengths cov utr_align_vectors ids
        = (memory_bank, Inl AttributeError)) \<and>
   (utr_align_vectors = None \<or> memory_lengths = None \<longrightarrow>
      (\<exists>e. forward fp m sparsemax source memory_bank memory_lengths cov utr_align_vectors ids
        = (memory_bank, Inl e)))"
proof (cases utr_align_vectors)
  case None
  then show ?thesis by (simp add: forward_def Let_def)
next
  case (Some u)
  show ?thesis
  proof (cases memory_lengths)
    case None
    obtain e where "check_inputs m (promote source) memory_bank (promote u) None cov = Inl e"
      using check_inputs_None by blast
    with None Some show ?thesis by (simp add: forward_def Let_def)
  next
    case (Some lens)
    with \<open>utr_align_vectors = Some u\<close> show ?thesis by simp
  qed
qed

theorem forward_requires_inputs_witness:
  "forward exact (module 1 Dot Softmax False) (softmax exact) (T3 (const3 1 1 1 1)) (const3 1 2 1 1)
     (Some [2]) None None None = (const3 1 2 1 1, Inl AttributeError) \<and>
   (\<exists>e. forward exact (module 1 Dot Softmax False) (softmax exact) (T3 (const3 1 1 1 1))
     (const3 1 2 1 1) None None (Some (T3 (const3 1 1 1 1))) None = (const3 1 2 1 1, Inl e))"
  using forward_requires_inputs [of None exact "module 1 Dot Softmax False" "softmax exact"
      "T3 (const3 1 1 1 1)" "const3 1 2 1 1" "Some [2]" None None]
    forward_requires_inputs [of "Some (T3 (const3 1 1 1 1))" exact "module 1 Dot Softmax False"
      "softmax exact" "T3 (const3 1 1 1 1)" "const3 1 2 1 1" None None None]
  by simp

subsection \<open>Masking and normalization\<close>

lemma mask_scores_Inr:
  "mask_scores w lens = Inr w' \<longleftrightarrow>
     (length lens = d0 w \<or> length lens = 1) \<and>
     w' = w\<lparr>at3 := (\<lambda>b t s. if \<not> int s < length_of lens b then NInf else at3 w b t s)\<rparr>"
  by (auto simp: mask_scores_def sequence_mask_def length_of_def Let_def)

lemma row_in_range: "b < B \<Longrightarrow> t < T \<Longrightarrow> b * T + t < B * (T::nat)"
proof -
  assume "b < B" "t < T"
  then have "b * T + t < (b + 1) * T" by simp
  also have "\<dots> \<le> B * T" using \<open>b < B\<close> by (intro mult_le_mono1) simp
  finally show ?thesis .
qed

lemma normalize_shape:
  assumes "normalize fp m sp w B T S = Inr a"
  shows "d0 a = B \<and> d1 a = T \<and> d2 a = S"
  using assms by (auto simp: normalize_def bind_err_eq_Inr view_3d_Inr)


lemma max_upto_cong: "(\<And>i. i < n \<Longrightarrow> f i = g i) \<Longrightarrow> max_upto n f = max_upto n g"
  by (induction n) simp_all

lemma softmax_row_cong:
  assumes "\<And>j. j < n \<Longrightarrow> x j = y j" "i < n"
  shows "softmax_row fp n x i = softmax_row fp n y i"
proof -
  have m: "max_upto n x = max_upto n y" using assms(1) by (rule max_upto_cong)
  have "sum_upto fp n (\<lambda>j. fl_exp fp (fl_sub fp (x j) (max_upto n y)))
        = sum_upto fp n (\<lambda>j. fl_exp fp (fl_sub fp (y j) (max_upto n y)))"
    using assms(1) by (intro sum_upto_cong) simp
  then show ?thesis using assms m by (simp add: softmax_row_def Let_def)
qed

lemma normalize_softmax:
  assumes "attn_func m = Softmax" "normalize fp m sp w B T S = Inr a" "d1 w = T" "d2 w = S"
    "t < T" "s < S"
  shows "at3 a b t s = softmax_row fp S (at3 w b t) s"
proof -
  define flat where "flat = \<lparr>rows = B * T, cols = S, at2 = (\<lambda>n k. flat3 w (n * S + k))\<rparr>"
  have a: "a = \<lparr>d0 = B, d1 = T, d2 = S, at3 = (\<lambda>i j k. flat2 (softmax fp flat) ((i * T + j) * S + k))\<rparr>"
    using assms(1,2) by (auto simp: normalize_def bind_err_eq_Inr view_2d_Inr view_3d_Inr flat_def)
  have f: "at2 flat (b * T + t) k = at3 w b t k" if "k < S" for k
    using that assms(3,4,5) by (simp add: flat_def flat3_index)
  have "at3 a b t s = at2 (softmax fp flat) (b * T + t) s"
    using assms(6) by (simp add: a flat2_index softmax_def flat_def)
  also have "\<dots> = softmax_row fp S (at2 flat (b * T + t)) s"
    by (simp add: softmax_def flat_def)
  also have "\<dots> = softmax_row fp S (at3 w b t) s"
    using assms(6) by (intro softmax_row_cong) (simp_all add: f)
  finally show ?thesis .
qed

lemma normalize_sparsemax:
  assumes "attn_func m = Sparsemax" "normalize fp m sp w B T S = Inr a" "d1 w = T" "d2 w = S"
    "\<And>x. cols (sp x) = cols x"
  shows "\<exists>flat. rows flat = B * T \<and> cols flat = S \<and>
           (\<forall>b t k. t < T \<longrightarrow> k < S \<longrightarrow> at2 flat (b * T + t) k = at3 w b t k) \<and>
           (\<forall>b t k. k < S \<longrightarrow> at3 a b t k = at2 (sp flat) (b * T + t) k)"
proof -
  define flat where "flat = \<lparr>rows = B * T, cols = S, at2 = (\<lambda>n k. flat3 w (n * S + k))\<rparr>"
  have a: "a = \<lparr>d0 = B, d1 = T, d2 = S, at3 = (\<lambda>i j k. flat2 (sp flat) ((i * T + j) * S + k))\<rparr>"
    using assms(1,2) by (auto simp: normalize_def bind_err_eq_Inr view_2d_Inr view_3d_Inr flat_def)
  have c: "cols (sp flat) = S" using assms(5) [of flat] by (simp add: flat_def)
  have "at2 flat (b * T + t) k = at3 w b t k" if "t < T" "k < S" for b t k
    using that assms(3,4) by (simp add: flat_def flat3_index)
  moreover have "at3 a b t k = at2 (sp flat) (b * T + t) k" if "k < S" for b t k
    using that c by (simp add: a flat2_index)
  moreover have "rows flat = B * T" "cols flat = S" by (simp_all add: flat_def)
  ultimately show ?thesis by blast
qed



lemma word_attention_parts:
  assumes "word_attention fp m sp src bank lens = Inr a"
  shows "\<exists>w. score fp m src bank = Inr w \<and> (length lens = d0 bank \<or> length lens = 1) \<and>
           normalize fp m sp (w\<lparr>at3 := (\<lambda>b t s. if \<not> int s < length_of lens b then NInf else at3 w b t s)\<rparr>)
             (d0 bank) (d1 src) (d1 bank) = Inr a"
proof -
  obtain w w' where w: "score fp m src bank = Inr w" and m: "mask_scores w lens = Inr w'"
    and n: "normalize fp m sp w' (d0 bank) (d1 src) (d1 bank) = Inr a"
    using assms by (auto simp: word_attention_def bind_err_eq_Inr)
  have "d0 w = d0 bank" using score_shape [OF w] by simp
  then show ?thesis using w m n by (auto simp: mask_scores_Inr)
qed

lemma word_attention_shape:
  assumes "word_attention fp m sp src bank lens = Inr a"
  shows "d0 a = d0 bank \<and> d1 a = d1 src \<and> d2 a = d1 bank \<and> d0 src = d0 bank \<and>
         d2 src = d2 bank \<and> mdim m = d2 bank \<and> (length lens = d0 bank \<or> length lens = 1)"
proof -
  obtain w where w: "score fp m src bank = Inr w"
    and l: "length lens = d0 bank \<or> length lens = 1"
    and n: "normalize fp m sp (w\<lparr>at3 := (\<lambda>b t s. if \<not> int s < length_of lens b then NInf else at3 w b t s)\<rparr>)
             (d0 bank) (d1 src) (d1 bank) = Inr a"
    using word_attention_parts [OF assms] by blast
  show ?thesis using score_shape [OF w] normalize_shape [OF n] l by simp
qed


text \<open>With softmax, a row of the word-level distribution is the softmax of the masked
  scores of the row.\<close>

lemma word_attention_softmax:
  assumes sm: "attn_func m = Softmax"
    and wa: "word_attention fp m sp src bank lens = Inr a"
    and t: "t < d1 src" and s: "s < d1 bank"
  shows "\<exists>w. score fp m src bank = Inr w \<and>
           at3 a b t s = softmax_row fp (d1 bank)
             (\<lambda>j. if \<not> int j < length_of lens b then NInf else at3 w b t j) s"
proof -
  let ?S = "d1 bank" and ?T = "d1 src" and ?B = "d0 bank"
  obtain w where w: "score fp m src bank = Inr w"
    and n: "normalize fp m sp (w\<lparr>at3 := (\<lambda>b t s. if \<not> int s < length_of lens b then NInf else at3 w b t s)\<rparr>)
             ?B ?T ?S = Inr a"
    using word_attention_parts [OF wa] by blast
  define w' where "w' = w\<lparr>at3 := (\<lambda>b t s. if \<not> int s < length_of lens b then NInf else at3 w b t s)\<rparr>"
  have sh': "d1 w' = ?T" "d2 w' = ?S" using score_shape [OF w] by (simp_all add: w'_def)
  have "at3 a b t s = softmax_row fp ?S (at3 w' b t) s"
    by (rule normalize_softmax [OF sm n [folded w'_def] sh' t s])
  then show ?thesis using w by (simp add: w'_def)
qed

lemma word_attention_all_masked:
  assumes sm: "attn_func m = Softmax"
    and wa: "word_attention fp m sp src bank lens = Inr a"
    and t: "t < d1 src" and len: "length_of lens b \<le> 0" and s: "s < d1 bank"
  shows "at3 a b t s = NaN"
proof -
  obtain w :: "tfloat tensor3" where "at3 a b t s = softmax_row fp (d1 bank)
             (\<lambda>j. if \<not> int j < length_of lens b then NInf else at3 w b t j) s"
    using word_attention_softmax [OF sm wa t s, of b] by blast
  moreover have "softmax_row fp (d1 bank)
             (\<lambda>j. if \<not> int j < length_of lens b then NInf else at3 w b t j) s = NaN"
    using s len by (intro softmax_row_NaN) auto
  ultimately show ?thesis by simp
qed

lemma word_attention_zero_row:
  assumes sm: "attn_func m = Sparsemax" and z: "zero_on_masked sp"
    and wa: "word_attention fp m sp src bank lens = Inr a"
    and b: "b < d0 bank" and t: "t < d1 src" and len: "length_of lens b \<le> 0" and s: "s < d1 bank"
  shows "at3 a b t s = Fin 0"
proof -
  let ?S = "d1 bank" and ?T = "d1 src" and ?B = "d0 bank"
  obtain w where w: "score fp m src bank = Inr w"
    and n: "normalize fp m sp (w\<lparr>at3 := (\<lambda>b t s. if \<not> int s < length_of lens b then NInf else at3 w b t s)\<rparr>)
             ?B ?T ?S = Inr a"
    using word_attention_parts [OF wa] by blast
  define w' where "w' = w\<lparr>at3 := (\<lambda>b t s. if \<not> int s < length_of lens b then NInf else at3 w b t s)\<rparr>"
  have sh': "d1 w' = ?T" "d2 w' = ?S" using score_shape [OF w] by (simp_all add: w'_def)
  have g: "at3 w' b t j = NInf" for j using len by (simp add: w'_def)
  have c: "cols (sp x) = cols x" for x using z by (simp add: zero_on_masked_def)
  obtain flat where flat: "rows flat = ?B * ?T" "cols flat = ?S"
    "\<And>b t k. t < ?T \<Longrightarrow> k < ?S \<Longrightarrow> at2 flat (b * ?T + t) k = at3 w' b t k"
    "\<And>b t k. k < ?S \<Longrightarrow> at3 a b t k = at2 (sp flat) (b * ?T + t) k"
    using normalize_sparsemax [OF sm n [folded w'_def] sh' c] by blast
  let ?n = "b * ?T + t"
  have nr: "?n < rows flat" using b t by (simp add: flat row_in_range)
  have "\<forall>k<cols flat. at2 flat ?n k = NInf" using flat(3) [OF t] g by (simp add: flat(2))
  then have "\<forall>k<cols flat. at2 (sp flat) ?n k = Fin 0"
    using z nr unfolding zero_on_masked_def by blast
  then show ?thesis using flat(2,4) s by simp
qed

subsection \<open>Rescaling, results and the parts of a call\<close>

lemma bc_size_cases:
  assumes "bc_size a b = Some n"
  shows "(b = n \<or> b = 1) \<and> (a = n \<or> a = 1)"
  using assms by (auto simp: bc_size_def split: if_splits)

lemma bc_idx_in_range: "n' = n \<or> n' = 1 \<Longrightarrow> i < n \<Longrightarrow> bc_idx n' i < n'"
  by (auto simp: bc_idx_def)

lemma bc_idx_id: "i < n \<Longrightarrow> bc_idx n i = i"
  by (auto simp: bc_idx_def)

lemma broadcast_op_Inr:
  "broadcast_op f a b = Inr c \<longleftrightarrow>
     (\<exists>n0 n1 n2. bc_size (d0 a) (d0 b) = Some n0 \<and> bc_size (d1 a) (d1 b) = Some n1 \<and>
        bc_size (d2 a) (d2 b) = Some n2 \<and>
        c = \<lparr>d0 = n0, d1 = n1, d2 = n2,
             at3 = (\<lambda>i j k. f (at3 a (bc_idx (d0 a) i) (bc_idx (d1 a) j) (bc_idx (d2 a) k))
                               (at3 b (bc_idx (d0 b) i) (bc_idx (d1 b) j) (bc_idx (d2 b) k)))\<rparr>)"
  by (auto simp: broadcast_op_def split: option.splits)

lemma gather_last_Inr:
  "gather_last input index = Inr g \<longleftrightarrow>
     d0 index \<le> d0 input \<and> d1 index \<le> d1 input \<and>
     (\<forall>b<d0 index. \<forall>t<d1 index. \<forall>s<d2 index. 0 \<le> at3 index b t s \<and> at3 index b t s < int (d2 input)) \<and>
     g = \<lparr>d0 = d0 index, d1 = d1 index, d2 = d2 index,
          at3 = (\<lambda>b t s. at3 input b t (nat (at3 index b t s)))\<rparr>"
  by (auto simp: gather_last_def all_upto_iff)

text \<open>The weight of the unit of source position \<open>s\<close> that line 223 gathers for the
  row \<open>(b, t)\<close>.\<close>

lemma reweight_values:
  assumes rw: "reweight fp a lens utr ids T = Inr p" and T: "d1 a = T"
    and sh: "d0 p = d0 a" "d2 p = d2 a"
  shows "d1 p = T \<and>
    (\<exists>e. (\<forall>b t s. b < d0 a \<longrightarrow> t < T \<longrightarrow> s < d2 a \<longrightarrow>
             at3 p b t s = fl_mul fp (at3 a b t s) (e b t s) \<and>
             (\<exists>b' u. b' < d0 utr \<and> t < d1 utr \<and> u < d2 utr \<and> e b t s = at3 utr b' t u)))"
proof -
  obtain w L' g where ids: "ids = Some (w, L')"
    and g: "gather_last utr (unsqueeze_expand w T) = Inr g"
    and p: "broadcast_op (fl_mul fp) a g = Inr p"
    using rw by (auto simp: reweight_def bind_err_eq_Inr split: option.splits if_splits)
  let ?ix = "unsqueeze_expand w T"
  have ix: "d0 ?ix = rows w" "d1 ?ix = T" "d2 ?ix = cols w" "at3 ?ix = (\<lambda>b t s. at2 w b s)"
    by (simp_all add: unsqueeze_expand_def)
  have G: "rows w \<le> d0 utr" "T \<le> d1 utr"
    "\<And>b t s. b < rows w \<Longrightarrow> t < T \<Longrightarrow> s < cols w \<Longrightarrow> 0 \<le> at2 w b s \<and> at2 w b s < int (d2 utr)"
    "d0 g = rows w" "d1 g = T" "d2 g = cols w"
    "at3 g = (\<lambda>b t s. at3 utr b t (nat (at2 w b s)))"
    using g unfolding gather_last_Inr ix by auto
  obtain n0 n1 n2 where n: "bc_size (d0 a) (d0 g) = Some n0" "bc_size (d1 a) (d1 g) = Some n1"
    "bc_size (d2 a) (d2 g) = Some n2"
    and pe: "p = \<lparr>d0 = n0, d1 = n1, d2 = n2,
             at3 = (\<lambda>i j k. fl_mul fp (at3 a (bc_idx (d0 a) i) (bc_idx (d1 a) j) (bc_idx (d2 a) k))
                               (at3 g (bc_idx (d0 g) i) (bc_idx (d1 g) j) (bc_idx (d2 g) k)))\<rparr>"
    using p unfolding broadcast_op_Inr by blast
  have n0: "n0 = d0 a" and n2: "n2 = d2 a" using sh by (simp_all add: pe)
  have n1: "n1 = T" using n(2) T G(5) by (simp add: bc_size_def)
  have rw': "rows w = d0 a \<or> rows w = 1" using bc_size_cases [OF n(1)] n0 G(4) by simp
  have cw': "cols w = d2 a \<or> cols w = 1" using bc_size_cases [OF n(3)] n2 G(6) by simp
  define e where "e = (\<lambda>b t s. at3 g (bc_idx (rows w) b) t (bc_idx (cols w) s))"
  have "at3 p b t s = fl_mul fp (at3 a b t s) (e b t s) \<and>
        (\<exists>b' u. b' < d0 utr \<and> t < d1 utr \<and> u < d2 utr \<and> e b t s = at3 utr b' t u)"
    if "b < d0 a" "t < T" "s < d2 a" for b t s
  proof -
    have 1: "at3 p b t s = fl_mul fp (at3 a b t s) (e b t s)"
      using that T by (simp add: pe e_def bc_idx_id G(4,5,6))
    let ?b = "bc_idx (rows w) b" and ?s = "bc_idx (cols w) s"
    have r: "?b < rows w" "?s < cols w"
      using bc_idx_in_range [OF rw' that(1)] bc_idx_in_range [OF cw' that(3)] by simp_all
    have v: "0 \<le> at2 w ?b ?s" "at2 w ?b ?s < int (d2 utr)" using G(3) [OF r(1) that(2) r(2)] by simp_all
    have "e b t s = at3 utr ?b t (nat (at2 w ?b ?s))" by (simp add: e_def G(7))
    moreover have "?b < d0 utr" using r(1) G(1) by simp
    moreover have "t < d1 utr" using that(2) G(2) by simp
    moreover have "nat (at2 w ?b ?s) < d2 utr" using v by simp
    ultimately show ?thesis using 1 by blast
  qed
  then show ?thesis using n1 by (auto simp: pe)
qed

lemma rescale_values:
  assumes on: "seqHRE_attn_rescale m" and hr: "hre_rescale fp m a lens utr ids T = Inr a'"
    and sh: "d0 a' = d0 a" "d2 a' = d2 a"
  shows "\<exists>p. reweight fp a lens utr ids T = Inr p \<and> d0 p = d0 a \<and> d2 p = d2 a \<and> d1 a' = d1 p \<and>
    (\<forall>b t s. b < d0 a \<longrightarrow> t < d1 p \<longrightarrow> s < d2 a \<longrightarrow>
        at3 a' b t s = fl_div fp (at3 p b t s) (sum_upto fp (d2 a) (at3 p b t)))"
proof -
  obtain p where p: "reweight fp a lens utr ids T = Inr p"
    and d: "broadcast_op (fl_div fp) p (sum_last fp p) = Inr a'"
    using on hr by (auto simp: hre_rescale_def bind_err_eq_Inr Let_def)
  obtain n0 n1 n2 where n: "bc_size (d0 p) (d0 (sum_last fp p)) = Some n0"
    "bc_size (d1 p) (d1 (sum_last fp p)) = Some n1" "bc_size (d2 p) (d2 (sum_last fp p)) = Some n2"
    and ae: "a' = \<lparr>d0 = n0, d1 = n1, d2 = n2,
             at3 = (\<lambda>i j k. fl_div fp (at3 p (bc_idx (d0 p) i) (bc_idx (d1 p) j) (bc_idx (d2 p) k))
                   (at3 (sum_last fp p) (bc_idx (d0 (sum_last fp p)) i) (bc_idx (d1 (sum_last fp p)) j)
                        (bc_idx (d2 (sum_last fp p)) k)))\<rparr>"
    using d unfolding broadcast_op_Inr by blast
  have n0: "n0 = d0 p" and n1: "n1 = d1 p" using n(1,2) by (simp_all add: bc_size_def sum_last_def)
  have n2: "n2 = d2 p" using n(3) by (auto simp: bc_size_def sum_last_def split: if_splits)
  have sp: "d0 p = d0 a" "d2 p = d2 a" using sh by (simp_all add: ae n0 n2)
  have "at3 a' b t s = fl_div fp (at3 p b t s) (sum_upto fp (d2 a) (at3 p b t))"
    if "b < d0 a" "t < d1 p" "s < d2 a" for b t s
    using that sp by (simp add: ae bc_idx_id sum_last_def)
  then show ?thesis using p sp by (auto simp: ae n1)
qed


lemma check_inputs_Inr:
  assumes "check_inputs m src mb utr lens cov = Inr L"
  shows "lens = Some L \<and> d0 src = d0 mb \<and> d0 utr = d0 mb \<and> d2 src = d2 mb \<and> mdim m = d2 mb \<and>
         d1 utr = d1 src \<and> (\<forall>c. cov = Some c \<longrightarrow> rows c = d0 mb \<and> cols c = d1 mb)"
  using assms
  by (auto simp: check_inputs_def Let_def bind_err_eq_Inr split: if_splits option.splits)

lemma squeeze1_Inr:
  "squeeze1 x = Inr y \<longleftrightarrow> d1 x = 1 \<and> y = \<lparr>rows = d0 x, cols = d2 x, at2 = (\<lambda>b d. at3 x b 0 d)\<rparr>"
  by (auto simp: squeeze1_def)

lemma finish_values:
  assumes "finish one_step B T S D c h a = Inr out"
  shows "(one_step \<longrightarrow> d1 c = 1 \<and> d1 a = 1) \<and>
         (\<forall>b t k. (one_step \<longrightarrow> t = 0) \<longrightarrow> out_align out b t k = at3 a b t k \<and> out_c out b t k = at3 c b t k)"
proof (cases one_step)
  case True
  then obtain c' h' a' where "squeeze1 c = Inr c'" "squeeze1 a = Inr a'" "out = OneStep c' h' a'"
    using assms
    by (auto simp: finish_def bind_err_eq_Inr split: if_splits)
  then show ?thesis using True by (auto simp: squeeze1_Inr)
next
  case False
  then have "out = MultiStep (transpose01 c) (map_option transpose01 h) (transpose01 a)"
    using assms
    by (auto simp: finish_def Let_def bind_err_eq_Inr split: if_splits)
  then show ?thesis using False by (simp add: transpose01_def)
qed

lemma forward_Inr:
  assumes "forward fp m sp source mb lens cov utr ids = (buf, Inr out)"
  shows "\<exists>u L bank a a' c h.
     utr = Some u \<and> lens = Some L \<and>
     check_inputs m (promote source) mb (promote u) lens cov = Inr L \<and>
     inject_coverage fp m mb cov = Inr (buf, bank) \<and>
     word_attention fp m sp (promote source) bank L = Inr a \<and>
     hre_rescale fp m a L (promote u) ids (d1 (promote source)) = Inr a' \<and>
     bmm fp a' bank = Inr c \<and>
     finish (case source of T2 q \<Rightarrow> True | T3 q \<Rightarrow> False) (d0 bank) (d1 (promote source))
       (d1 bank) (d2 bank) c h a' = Inr out"
proof -
  obtain u where u: "utr = Some u" using assms by (cases utr) (auto simp: forward_def Let_def)
  obtain L where L: "check_inputs m (promote source) mb (promote u) lens cov = Inr L"
    using assms u by (cases "check_inputs m (promote source) mb (promote u) lens cov")
      (auto simp: forward_def Let_def)
  obtain bank where bank: "inject_coverage fp m mb cov = Inr (buf, bank)"
    and at: "attend fp m sp (case source of T2 q \<Rightarrow> True | T3 q \<Rightarrow> False) (promote source) bank L
               (promote u) ids = Inr out"
    using assms u L by (cases "inject_coverage fp m mb cov") (auto simp: forward_def Let_def)
  have "lens = Some L" using check_inputs_Inr [OF L] by simp
  then show ?thesis
    using u L bank at by (auto simp: attend_def Let_def bind_err_eq_Inr)
qed

lemma one_step_target: "(case source of T2 q \<Rightarrow> True | T3 q \<Rightarrow> False) \<Longrightarrow> d1 (promote source) = 1"
  by (cases source) (simp_all add: promote_def unsqueeze1_def)

lemma cover_projection_values:
  assumes "cover_projection fp m cov mb = Inr p" "rows cov = d0 mb" "cols cov = d1 mb" "mdim m = d2 mb"
  shows "d0 p = d0 mb \<and> d1 p = d1 mb \<and> d2 p = d2 mb \<and>
         (\<forall>i j k. j < d1 mb \<longrightarrow> k < d2 mb \<longrightarrow>
            at3 p i j k = sum_upto fp 1 (\<lambda>l. fl_mul fp (at2 cov i j) (linear_cover m k l)))"
proof -
  define y where "y = \<lparr>rows = rows (view_column cov), cols = mdim m,
         at2 = (\<lambda>n out. sum_upto fp 1 (\<lambda>k. fl_mul fp (at2 (view_column cov) n k) (linear_cover m out k)))\<rparr>"
  have p: "p = \<lparr>d0 = d0 mb, d1 = d1 mb, d2 = d2 mb,
                at3 = (\<lambda>i j k. flat2 y ((i * d1 mb + j) * d2 mb + k))\<rparr>"
    using assms(1)
    by (auto simp: cover_projection_def bind_err_eq_Inr nn_linear_Inr view_3d_Inr y_def
          split: if_splits)
  have "at3 p i j k = sum_upto fp 1 (\<lambda>l. fl_mul fp (at2 cov i j) (linear_cover m k l))"
    if "j < d1 mb" "k < d2 mb" for i j k
  proof -
    have "at3 p i j k = at2 y (i * d1 mb + j) k"
      using that assms(4) by (simp add: p flat2_index y_def)
    also have "\<dots> = sum_upto fp 1 (\<lambda>l. fl_mul fp (flat2 cov (i * d1 mb + j)) (linear_cover m k l))"
      by (simp add: y_def view_column_def)
    also have "flat2 cov (i * d1 mb + j) = at2 cov i j"
      using that(1) assms(3) by (simp add: flat2_index)
    finally show ?thesis .
  qed
  then show ?thesis by (simp add: p)
qed

lemma inject_coverage_shape:
  assumes "inject_coverage fp m mb cov = Inr (buf, bank)"
  shows "d0 bank = d0 mb \<and> d1 bank = d1 mb \<and> d2 bank = d2 mb"
  using assms
  by (auto simp: inject_coverage_def bind_err_eq_Inr Let_def tanh3_def add3_def split: option.splits)


lemma inject_coverage_finite:
  assumes fp: "ieee fp"
    and ic: "inject_coverage fp m mb cov = Inr (buf, bank)"
    and fin: "finite3 mb" "finite_coverage cov" "finite_weights m"
    and sh: "\<forall>c. cov = Some c \<longrightarrow> rows c = d0 mb \<and> cols c = d1 mb" "mdim m = d2 mb"
  shows "finite3 bank"
proof (cases cov)
  case None
  then show ?thesis using ic fin by (auto simp: inject_coverage_def)
next
  case (Some c)
  then obtain p where p: "cover_projection fp m c mb = Inr p" and b: "bank = tanh3 fp (add3 fp mb p)"
    using ic by (auto simp: inject_coverage_def bind_err_eq_Inr Let_def)
  have c: "rows c = d0 mb" "cols c = d1 mb" using sh Some by simp_all
  note v = cover_projection_values [OF p c sh(2)]
  have "is_fin (at3 bank i j k)" if "i < d0 mb" "j < d1 mb" "k < d2 mb" for i j k
  proof -
    have 1: "is_fin (at3 mb i j k)" using fin(1) that by (simp add: finite3D)
    have "is_fin (at2 c i j)" using fin(2) Some that c by (simp add: finite_coverage_def finite2_def)
    moreover have "is_fin (linear_cover m k 0)" using fin(3) by (simp add: finite_weights_def)
    ultimately have "fl_mul fp (at2 c i j) (linear_cover m k 0) \<noteq> NaN"
      by (rule fl_mul_fin_not_NaN [OF fp])
    then have "fl_add fp (Fin 0) (fl_mul fp (at2 c i j) (linear_cover m k 0)) \<noteq> NaN"
      by (intro fl_add_not_NaN [OF fp]) simp_all
    then have "at3 p i j k \<noteq> NaN" using v that by simp
    then have "fl_add fp (at3 mb i j k) (at3 p i j k) \<noteq> NaN"
      using 1 by (intro fl_add_not_NaN [OF fp])
    then show ?thesis by (simp add: b tanh3_def add3_def fl_tanh_fin [OF fp])
  qed
  then show ?thesis by (simp add: finite3_def b tanh3_def add3_def)
qed

lemma forward_parts:
  assumes ret: "forward fp m sp source mb (Some lens) cov (Some utr) ids = (buf, Inr out)"
  defines "T \<equiv> d1 (promote source)" and "B \<equiv> d0 mb" and "S \<equiv> d1 mb"
  shows "\<exists>bank a.
     inject_coverage fp m mb cov = Inr (buf, bank) \<and>
     word_attention fp m sp (promote source) bank lens = Inr a \<and>
     d0 bank = B \<and> d1 bank = S \<and> d2 bank = d2 mb \<and> d0 a = B \<and> d1 a = T \<and> d2 a = S \<and>
     d0 (promote source) = B \<and> d2 (promote source) = d2 mb \<and> mdim m = d2 mb \<and>
     (\<forall>c. cov = Some c \<longrightarrow> rows c = B \<and> cols c = S) \<and>
     (\<forall>b t k. t < T \<longrightarrow>
        out_c out b t k = sum_upto fp S (\<lambda>l. fl_mul fp (out_align out b t l) (at3 bank b l k))) \<and>
     (\<not> seqHRE_attn_rescale m \<longrightarrow> (\<forall>b t s. t < T \<longrightarrow> out_align out b t s = at3 a b t s)) \<and>
     (seqHRE_attn_rescale m \<longrightarrow>
        (\<exists>p. reweight fp a lens (promote utr) ids T = Inr p \<and> d0 p = B \<and> d1 p = T \<and> d2 p = S \<and>
           (\<forall>b t s. b < B \<longrightarrow> t < T \<longrightarrow> s < S \<longrightarrow>
              out_align out b t s = fl_div fp (at3 p b t s) (sum_upto fp S (at3 p b t))) \<and>
           (\<exists>e. \<forall>b t s. b < B \<longrightarrow> t < T \<longrightarrow> s < S \<longrightarrow>
              at3 p b t s = fl_mul fp (at3 a b t s) (e b t s) \<and>
              (\<exists>b' u. b' < d0 (promote utr) \<and> t < d1 (promote utr) \<and> u < d2 (promote utr) \<and>
                 e b t s = at3 (promote utr) b' t u))))"
proof -
  let ?one = "case source of T2 q \<Rightarrow> True | T3 q \<Rightarrow> False"
  obtain L bank a a' c h where
    ci: "check_inputs m (promote source) mb (promote utr) (Some lens) cov = Inr L"
    and ic: "inject_coverage fp m mb cov = Inr (buf, bank)"
    and wa: "word_attention fp m sp (promote source) bank L = Inr a"
    and hr: "hre_rescale fp m a L (promote utr) ids (d1 (promote source)) = Inr a'"
    and bm: "bmm fp a' bank = Inr c"
    and fi: "finish ?one (d0 bank) (d1 (promote source)) (d1 bank) (d2 bank) c h a' = Inr out"
    using forward_Inr [OF ret] by auto
  have L: "L = lens" using check_inputs_Inr [OF ci] by simp
  note wa = wa [unfolded L] and hr = hr [unfolded L]
  have cs: "d0 (promote source) = B" "d2 (promote source) = d2 mb" "mdim m = d2 mb"
    "\<forall>c. cov = Some c \<longrightarrow> rows c = B \<and> cols c = S"
    using check_inputs_Inr [OF ci] by (simp_all add: B_def S_def)
  have bs: "d0 bank = B" "d1 bank = S" "d2 bank = d2 mb"
    using inject_coverage_shape [OF ic] by (simp_all add: B_def S_def)
  have as: "d0 a = B" "d1 a = T" "d2 a = S"
    using word_attention_shape [OF wa] bs by (simp_all add: T_def)
  have a's: "d0 a' = B" "d2 a' = S" using bm bs by (simp_all add: bmm_Inr)
  have ce: "at3 c b t k = sum_upto fp S (\<lambda>l. fl_mul fp (at3 a' b t l) (at3 bank b l k))" for b t k
    using bm a's by (auto simp: bmm_Inr)
  have t0: "t = 0" if "?one" "t < T" for t
    using one_step_target [OF that(1)] that(2) by (simp add: T_def)
  have fv: "out_align out b t k = at3 a' b t k" "out_c out b t k = at3 c b t k" if "t < T" for b t k
    using finish_values [OF fi] t0 [OF _ that] by auto
  have 1: "\<forall>b t k. t < T \<longrightarrow>
        out_c out b t k = sum_upto fp S (\<lambda>l. fl_mul fp (out_align out b t l) (at3 bank b l k))"
    by (simp add: fv ce)
  have 2: "\<forall>b t s. t < T \<longrightarrow> out_align out b t s = at3 a b t s" if "\<not> seqHRE_attn_rescale m"
    using hr that by (simp add: hre_rescale_def fv)
  have 3: "\<exists>p. reweight fp a lens (promote utr) ids T = Inr p \<and> d0 p = B \<and> d1 p = T \<and> d2 p = S \<and>
           (\<forall>b t s. b < B \<longrightarrow> t < T \<longrightarrow> s < S \<longrightarrow>
              out_align out b t s = fl_div fp (at3 p b t s) (sum_upto fp S (at3 p b t))) \<and>
           (\<exists>e. \<forall>b t s. b < B \<longrightarrow> t < T \<longrightarrow> s < S \<longrightarrow>
              at3 p b t s = fl_mul fp (at3 a b t s) (e b t s) \<and>
              (\<exists>b' u. b' < d0 (promote utr) \<and> t < d1 (promote utr) \<and> u < d2 (promote utr) \<and>
                 e b t s = at3 (promote utr) b' t u))"
    if on: "seqHRE_attn_rescale m"
  proof -
    obtain p where p: "reweight fp a lens (promote utr) ids T = Inr p" "d0 p = d0 a" "d2 p = d2 a"
      "d1 a' = d1 p"
      and av: "\<And>b t s. b < d0 a \<Longrightarrow> t < d1 p \<Longrightarrow> s < d2 a \<Longrightarrow>
                at3 a' b t s = fl_div fp (at3 p b t s) (sum_upto fp (d2 a) (at3 p b t))"
      using rescale_values [OF on hr [folded T_def]] a's as by auto
    note rv = reweight_values [OF p(1) as(2) p(2,3)]
    have pT: "d1 p = T" using rv by simp
    show ?thesis
      using p(1,2,3) pT rv av as by (auto simp: fv)
  qed
  show ?thesis using ic wa cs bs as 1 2 3 by blast
qed


lemmas forward_eval =
  forward_def promote_def check_inputs_def inject_coverage_def attend_def word_attention_def
  score_def mask_scores_def normalize_def hre_rescale_def reweight_def bmm_def project_out_def
  finish_def view_2d_def view_3d_def view_rows_def transpose12_def transpose01_def squeeze1_def
  unsqueeze1_def sequence_mask_def softmax_def softmax_row_def fl_sub_def gather_last_def
  unsqueeze_expand_def eq_all_def
  broadcast_op_def bc_size_def bc_idx_def sum_last_def flat2_def flat3_def
  const2_def const3_def module_def units_def unit0_only_def Let_def length_of_def

lemma sum_upto_numeral:
  "sum_upto fp (numeral k) f = fl_add fp (sum_upto fp (pred_numeral k) f) (f (pred_numeral k))"
  by (simp add: numeral_eq_Suc)

lemma max_upto_numeral:
  "max_upto (numeral k) f = fl_max (max_upto (pred_numeral k) f) (f (pred_numeral k))"
  by (simp add: numeral_eq_Suc)


lemma word_level_Inr:
  assumes "inject_coverage fp m mb cov = Inr (buf, bank)"
  shows "word_level fp m sp source mb lens cov = word_attention fp m sp (promote source) bank lens"
  using assms by (simp add: word_level_def)

lemma norm_term_value:
  assumes "inject_coverage fp m mb cov = Inr (buf, bank)"
    and "word_attention fp m sp (promote source) bank lens = Inr a"
    and "reweight fp a lens (promote utr) ids (d1 (promote source)) = Inr p"
  shows "norm_term fp m sp source mb lens cov utr ids = Inr (sum_last fp p)"
  using assms by (simp add: norm_term_def word_level_def)

lemmas example_defs = unit1_then_pad_def zeros_like_def

text \<open>The row \<open>(b, t)\<close> of a call that rescales: the returned weights are the products of
  line 227 divided by the row's \<^verbatim>\<open>norm_term\<close>.\<close>

lemma rescaled_parts:
  assumes on: "seqHRE_attn_rescale m"
    and ret: "forward fp m sparsemax source memory_bank (Some lens) cov (Some utr) ids = (buf, Inr out)"
    and b: "b < d0 memory_bank" and t: "t < d1 (promote source)"
  shows "\<exists>bank a p e.
     inject_coverage fp m memory_bank cov = Inr (buf, bank) \<and>
     d1 bank = d1 memory_bank \<and>
     word_attention fp m sparsemax (promote source) bank lens = Inr a \<and>
     word_level fp m sparsemax source memory_bank lens cov = Inr a \<and>
     norm_term fp m sparsemax source memory_bank lens cov utr ids = Inr (sum_last fp p) \<and>
     d2 p = d1 memory_bank \<and>
     (\<forall>s<d1 memory_bank.
        out_align out b t s = fl_div fp (at3 p b t s) (sum_upto fp (d1 memory_bank) (at3 p b t)) \<and>
        at3 p b t s = fl_mul fp (at3 a b t s) (e s) \<and>
        (\<exists>b' u. b' < d0 (promote utr) \<and> t < d1 (promote utr) \<and> u < d2 (promote utr) \<and>
                 e s = at3 (promote utr) b' t u))"
proof -
  let ?S = "d1 memory_bank" and ?T = "d1 (promote source)" and ?B = "d0 memory_bank"
  obtain bank a where ic: "inject_coverage fp m memory_bank cov = Inr (buf, bank)"
    and wa: "word_attention fp m sparsemax (promote source) bank lens = Inr a"
    and sh: "d1 bank = ?S"
    and on': "seqHRE_attn_rescale m \<longrightarrow>
        (\<exists>p. reweight fp a lens (promote utr) ids ?T = Inr p \<and> d0 p = ?B \<and> d1 p = ?T \<and> d2 p = ?S \<and>
           (\<forall>b t s. b < ?B \<longrightarrow> t < ?T \<longrightarrow> s < ?S \<longrightarrow>
              out_align out b t s = fl_div fp (at3 p b t s) (sum_upto fp ?S (at3 p b t))) \<and>
           (\<exists>e. \<forall>b t s. b < ?B \<longrightarrow> t < ?T \<longrightarrow> s < ?S \<longrightarrow>
              at3 p b t s = fl_mul fp (at3 a b t s) (e b t s) \<and>
              (\<exists>b' u. b' < d0 (promote utr) \<and> t < d1 (promote utr) \<and> u < d2 (promote utr) \<and>
                 e b t s = at3 (promote utr) b' t u)))"
    using forward_parts [OF ret] by blast
  obtain p e where p: "reweight fp a lens (promote utr) ids ?T = Inr p" "d2 p = ?S"
    and o: "\<And>s. s < ?S \<Longrightarrow> out_align out b t s = fl_div fp (at3 p b t s) (sum_upto fp ?S (at3 p b t))"
    and e: "\<And>s. s < ?S \<Longrightarrow> at3 p b t s = fl_mul fp (at3 a b t s) (e b t s) \<and>
              (\<exists>b' u. b' < d0 (promote utr) \<and> t < d1 (promote utr) \<and> u < d2 (promote utr) \<and>
                 e b t s = at3 (promote utr) b' t u)"
    using on' on b t by blast
  have wl: "word_level fp m sparsemax source memory_bank lens cov = Inr a"
    using word_level_Inr [OF ic] wa by simp
  have nt: "norm_term fp m sparsemax source memory_bank lens cov utr ids = Inr (sum_last fp p)"
    by (rule norm_term_value [OF ic wa p(1)])
  have "\<forall>s<?S. out_align out b t s = fl_div fp (at3 p b t s) (sum_upto fp ?S (at3 p b t)) \<and>
        at3 p b t s = fl_mul fp (at3 a b t s) (e b t s) \<and>
        (\<exists>b' u. b' < d0 (promote utr) \<and> t < d1 (promote utr) \<and> u < d2 (promote utr) \<and>
                 e b t s = at3 (promote utr) b' t u)"
    using o e by simp
  then show ?thesis using ic sh wa wl nt p(2) by blast
qed

text \<open>With softmax, a weight of the word-level row that is not NaN shows that the row is
  exactly 0 at the masked positions and not negative elsewhere.\<close>

lemma word_attention_softmax_row:
  assumes fp: "ieee fp" and sm: "attn_func m = Softmax"
    and wa: "word_attention fp m sp src bank lens = Inr a"
    and t: "t < d1 src" and i: "i < d1 bank" "at3 a b t i \<noteq> NaN"
  shows "(\<forall>s<d1 bank. length_of lens b \<le> int s \<longrightarrow> at3 a b t s = Fin 0) \<and>
         (\<forall>s<d1 bank. \<forall>x. at3 a b t s = Fin x \<longrightarrow> 0 \<le> x)"
proof -
  let ?S = "d1 bank"
  obtain w where w: "score fp m src bank = Inr w" using word_attention_parts [OF wa] by blast
  let ?g = "\<lambda>j. if \<not> int j < length_of lens b then NInf else at3 w b t j"
  have a: "at3 a b t s = softmax_row fp ?S ?g s" if "s < ?S" for s
    using word_attention_softmax [OF sm wa t that, of b] w by simp
  have v: "softmax_row fp ?S ?g i \<noteq> NaN" using i a by simp
  have 1: "at3 a b t s = Fin 0" if "s < ?S" "length_of lens b \<le> int s" for s
    using softmax_row_zero [OF fp i(1) v that(1)] that a by simp
  have 2: "0 \<le> x" if "s < ?S" "at3 a b t s = Fin x" for s x
    using softmax_row_nonneg [OF fp that(1), of ?g x] that a by simp
  show ?thesis using 1 2 by blast
qed

subsection \<open>The rows of the returned distribution\<close>








subsection \<open>Padded positions under rescaling\<close>

text \<open>
  Claim C3, as amended. With the hierarchical rescaling on, take a call that returns, a
  row of it whose \<^verbatim>\<open>norm_term\<close> (line 228) is a number \<open>r\<close>, and a padded position of the
  row. With softmax, the returned weight there is exactly 0 when \<open>r\<close> is not 0, whatever
  coarse weight the position's unit carries, and NaN when \<open>r\<close> is 0; this holds in every
  arithmetic with the IEEE properties \<open>ieee\<close>. With a sparse normalization the same
  holds when the word-level weight of the position (after line 211) is exactly 0.
\<close>

theorem padded_positions_stay_zero:
  assumes fp: "ieee fp"
    and norm: "attn_func m = Softmax \<or>
       (\<exists>a. word_level fp m sparsemax source memory_bank lens cov = Inr a \<and> at3 a b t s = Fin 0)"
    and on: "seqHRE_attn_rescale m"
    and ret: "forward fp m sparsemax source memory_bank (Some lens) cov (Some utr) ids = (buf, Inr out)"
    and b: "b < d0 memory_bank" and t: "t < d1 (promote source)"
    and s: "s < d1 memory_bank" and pad: "length_of lens b \<le> int s"
    and nt: "norm_term fp m sparsemax source memory_bank lens cov utr ids = Inr nt"
      "at3 nt b t 0 = Fin r"
  shows "out_align out b t s = (if r = 0 then NaN else Fin 0)"
proof -
  let ?S = "d1 memory_bank"
  obtain bank a p e where sh: "d1 bank = ?S"
    and wa: "word_attention fp m sparsemax (promote source) bank lens = Inr a"
    and wl: "word_level fp m sparsemax source memory_bank lens cov = Inr a"
    and n: "norm_term fp m sparsemax source memory_bank lens cov utr ids = Inr (sum_last fp p)"
    and p2: "d2 p = ?S"
    and row: "\<forall>s<?S. out_align out b t s = fl_div fp (at3 p b t s) (sum_upto fp ?S (at3 p b t)) \<and>
        at3 p b t s = fl_mul fp (at3 a b t s) (e s)"
    using rescaled_parts [OF on ret b t] by blast
  have r: "sum_upto fp ?S (at3 p b t) = Fin r"
    using nt n p2 by (auto simp: sum_last_def)
  have pf: "is_fin (at3 p b t s)"
    using r s sum_upto_is_fin [of fp ?S "at3 p b t" s] by simp
  have ps: "at3 p b t s = fl_mul fp (at3 a b t s) (e s)" using row s by simp
  have a0: "at3 a b t s = Fin 0"
  proof (cases "attn_func m = Softmax")
    case True
    have "at3 a b t s \<noteq> NaN" using pf ps by (cases "at3 a b t s") auto
    then show ?thesis
      using word_attention_softmax_row [OF fp True wa t, of s b] s pad sh by simp
  next
    case False
    then show ?thesis using norm wl by auto
  qed
  have "at3 p b t s = Fin 0" using pf ps a0 fl_mul_zero_fin [OF fp, of "e s"] by simp
  then show ?thesis using row s r by (simp add: ieee_div_zero [OF fp])
qed

theorem padded_positions_stay_zero_witness:
  "out_align (projr (snd (forward exact (module 1 Dot Softmax True) (softmax exact) (T3 (const3 1 1 1 0))
      (const3 1 3 1 0) (Some [1]) None (Some (T3 unit0_only)) (Some (units 1 3 0, [1]))))) 0 0 2
   = Fin 0"
proof -
  let ?m = "module 1 Dot Softmax True"
  have "\<exists>out. forward exact ?m (softmax exact) (T3 (const3 1 1 1 0)) (const3 1 3 1 0) (Some [1]) None
      (Some (T3 unit0_only)) (Some (units 1 3 0, [1])) = (const3 1 3 1 0, Inr out)"
    by (simp add: forward_eval all_upto_iff)
  then obtain out where ret: "forward exact ?m (softmax exact) (T3 (const3 1 1 1 0)) (const3 1 3 1 0)
      (Some [1]) None (Some (T3 unit0_only)) (Some (units 1 3 0, [1])) = (const3 1 3 1 0, Inr out)"
    by blast
  have "\<exists>nt. norm_term exact ?m (softmax exact) (T3 (const3 1 1 1 0)) (const3 1 3 1 0) [1] None
      (T3 unit0_only) (Some (units 1 3 0, [1])) = Inr nt \<and> at3 nt 0 0 0 = Fin 1"
    by (simp add: norm_term_def word_level_def forward_eval all_upto_iff sum_upto_numeral
        max_upto_numeral)
  then obtain nt where nt: "norm_term exact ?m (softmax exact) (T3 (const3 1 1 1 0)) (const3 1 3 1 0)
      [1] None (T3 unit0_only) (Some (units 1 3 0, [1])) = Inr nt" "at3 nt 0 0 0 = Fin 1"
    by blast
  have n: "attn_func ?m = Softmax \<or>
       (\<exists>a. word_level exact ?m (softmax exact) (T3 (const3 1 1 1 0)) (const3 1 3 1 0) [1] None = Inr a
          \<and> at3 a 0 0 2 = Fin 0)"
    "seqHRE_attn_rescale ?m"
    by (simp_all add: module_def)
  have i: "0 < d0 (const3 1 3 1 0)" "0 < d1 (promote (T3 (const3 1 1 1 0)))"
    "2 < d1 (const3 1 3 1 0)" "length_of [1] 0 \<le> int 2"
    by (simp_all add: promote_def const3_def length_of_def bc_idx_def)
  have "out_align out 0 0 2 = (if (1::real) = 0 then NaN else Fin 0)"
    by (rule padded_positions_stay_zero [OF ieee_exact n ret i nt])
  then have "out_align out 0 0 2 = Fin 0" by simp
  then show ?thesis by (simp only: ret snd_conv sum.sel)
qed

theorem padded_positions_stay_zero_counterexample:
  "\<exists>out. forward exact (module 1 Dot Softmax True) (softmax exact) (T3 (const3 1 1 1 0)) (const3 1 2 1 0)
      (Some [1]) None (Some (T3 unit0_only)) (Some (unit1_then_pad, [1])) = (const3 1 2 1 0, Inr out)
    \<and> out_align out 0 0 1 = NaN"
  by (simp add: forward_eval example_defs all_upto_iff sum_upto_numeral max_upto_numeral)

subsection \<open>Rescaling by a uniform coarse alignment\<close>

text \<open>
  Claim C5, as amended. With the hierarchical rescaling on, take a coarse alignment
  whose entries all are one positive number \<open>u\<close> (\<open>1 / num_units\<close>, as the format
  represents it), a call that returns and a row of it whose \<^verbatim>\<open>norm_term\<close> (line 228) is a
  number other than 0; with a sparse normalization let the word-level weights of the
  row (after line 211) be non-negative numbers. Then the multiplication and
  renormalization never reverse the order of two positions of the row: a word-level
  weight that is at most another one is at most the other one afterwards too, in every
  arithmetic with the IEEE properties \<open>ieee\<close>. Rounding can make two different weights
  equal; when the operations on numbers are exact, two positions compare after the
  rescaling exactly as before.
\<close>

theorem uniform_rescaling_keeps_order:
  assumes fp: "ieee fp"
    and on: "seqHRE_attn_rescale m"
    and ret: "forward fp m sparsemax source memory_bank (Some lens) cov (Some utr) ids = (buf, Inr out)"
    and uni: "0 < u"
      "\<forall>b'<d0 (promote utr). \<forall>t'<d1 (promote utr). \<forall>k<d2 (promote utr).
          at3 (promote utr) b' t' k = Fin u"
    and wl: "word_level fp m sparsemax source memory_bank lens cov = Inr before"
    and norm: "attn_func m = Softmax \<or>
               (\<forall>s<d1 memory_bank. \<exists>x. at3 before b t s = Fin x \<and> 0 \<le> x)"
    and b: "b < d0 memory_bank" and t: "t < d1 (promote source)"
    and i: "i < d1 memory_bank" and j: "j < d1 memory_bank"
    and nt: "norm_term fp m sparsemax source memory_bank lens cov utr ids = Inr nt"
      "at3 nt b t 0 = Fin r" "r \<noteq> 0"
  shows "(fl_le (at3 before b t i) (at3 before b t j)
            \<longrightarrow> fl_le (out_align out b t i) (out_align out b t j)) \<and>
         (fp = exact \<longrightarrow>
            (fl_le (at3 before b t i) (at3 before b t j)
               \<longleftrightarrow> fl_le (out_align out b t i) (out_align out b t j)))"
proof -
  let ?S = "d1 memory_bank"
  obtain bank a p e where sh: "d1 bank = ?S"
    and wa: "word_attention fp m sparsemax (promote source) bank lens = Inr a"
    and wl': "word_level fp m sparsemax source memory_bank lens cov = Inr a"
    and n: "norm_term fp m sparsemax source memory_bank lens cov utr ids = Inr (sum_last fp p)"
    and p2: "d2 p = ?S"
    and row: "\<forall>s<?S. out_align out b t s = fl_div fp (at3 p b t s) (sum_upto fp ?S (at3 p b t)) \<and>
        at3 p b t s = fl_mul fp (at3 a b t s) (e s) \<and>
        (\<exists>b' u. b' < d0 (promote utr) \<and> t < d1 (promote utr) \<and> u < d2 (promote utr) \<and>
                 e s = at3 (promote utr) b' t u)"
    using rescaled_parts [OF on ret b t] by blast
  have ab: "a = before" using wl wl' by simp
  have r: "sum_upto fp ?S (at3 p b t) = Fin r"
    using nt n p2 by (auto simp: sum_last_def)
  have eu: "e s = Fin u" if "s < ?S" for s using row uni(2) that by auto
  have ps: "at3 p b t s = fl_mul fp (at3 a b t s) (Fin u)" if "s < ?S" for s
    using row that eu by simp
  have pf: "is_fin (at3 p b t s)" if "s < ?S" for s
    using r that sum_upto_is_fin [of fp ?S "at3 p b t" s] by simp
  have af: "is_fin (at3 a b t s)" if "s < ?S" for s
    using pf [OF that] ps [OF that] uni(1) fl_mul_fin_only [of fp "at3 a b t s" u] by simp
  define x where "x s = val (at3 a b t s)" for s
  define y where "y s = val (at3 p b t s)" for s
  have ax: "at3 a b t s = Fin (x s)" if "s < ?S" for s
    using af [OF that] by (auto simp: is_fin_iff x_def)
  have py: "at3 p b t s = Fin (y s)" if "s < ?S" for s
    using pf [OF that] by (auto simp: is_fin_iff y_def)
  have my: "mul_r fp (x s) u = Fin (y s)" if "s < ?S" for s
    using ps [OF that] ax [OF that] py [OF that] by simp
  have x0: "0 \<le> x s" if "s < ?S" for s
  proof (cases "attn_func m = Softmax")
    case True
    have "at3 a b t s \<noteq> NaN" using ax [OF that] by simp
    then show ?thesis
      using word_attention_softmax_row [OF fp True wa t, of s b] that sh ax [OF that] by simp
  next
    case False
    then show ?thesis using norm ab ax [OF that] that by auto
  qed
  have y0: "0 \<le> y s" if "s < ?S" for s
  proof -
    have "fl_le (mul_r fp 0 u) (mul_r fp (x s) u)"
      using uni(1) x0 [OF that] by (intro ieee_mul_mono [OF fp]) simp_all
    then show ?thesis using my [OF that] by (simp add: ieee_mul_zero_left [OF fp])
  qed
  have "sum_upto fp ?S (at3 p b t) = PInf \<or>
        (\<exists>z. sum_upto fp ?S (at3 p b t) = Fin z \<and> 0 \<le> z \<and>
             (\<forall>i<?S. \<forall>r. at3 p b t i = Fin r \<longrightarrow> r \<le> z))"
    using py y0 by (intro sum_upto_nonneg [OF fp]) simp
  then have "0 \<le> r" using r by auto
  then have r0: "0 < r" using nt(3) by simp
  have o: "out_align out b t s = div_r fp (y s) r" if "s < ?S" for s
    using row that r py [OF that] nt(3) by simp
  have 1: "fl_le (out_align out b t i) (out_align out b t j)"
    if "fl_le (at3 before b t i) (at3 before b t j)"
  proof -
    have "x i \<le> x j" using that ab ax [OF i] ax [OF j] by simp
    then have "fl_le (mul_r fp (x i) u) (mul_r fp (x j) u)"
      using uni(1) by (intro ieee_mul_mono [OF fp]) simp_all
    then have "y i \<le> y j" using my [OF i] my [OF j] by simp
    then have "fl_le (div_r fp (y i) r) (div_r fp (y j) r)"
      using r0 by (intro ieee_div_mono [OF fp])
    then show ?thesis using o [OF i] o [OF j] by simp
  qed
  have 2: "fl_le (at3 before b t i) (at3 before b t j)
           \<longleftrightarrow> fl_le (out_align out b t i) (out_align out b t j)" if ex: "fp = exact"
  proof -
    have ys: "y s = x s * u" if "s < ?S" for s using my [OF that] ex by simp
    have os: "out_align out b t s = Fin (x s * u / r)" if "s < ?S" for s
      using o [OF that] ys [OF that] ex by simp
    have "x i * u / r \<le> x j * u / r \<longleftrightarrow> x i \<le> x j"
      using uni(1) r0 by (simp add: divide_le_cancel)
    then show ?thesis using os [OF i] os [OF j] ab ax [OF i] ax [OF j] by simp
  qed
  show ?thesis using 1 2 by blast
qed

theorem uniform_rescaling_keeps_order_witness:
  "fl_le (out_align (projr (snd (forward exact (module 1 Dot Softmax True) (softmax exact)
             (T3 (const3 1 1 1 0)) (const3 1 3 1 0) (Some [2]) None (Some (T3 (const3 1 1 2 (1 / 2))))
             (Some (units 1 3 1, [2]))))) 0 0 2)
         (out_align (projr (snd (forward exact (module 1 Dot Softmax True) (softmax exact)
             (T3 (const3 1 1 1 0)) (const3 1 3 1 0) (Some [2]) None (Some (T3 (const3 1 1 2 (1 / 2))))
             (Some (units 1 3 1, [2]))))) 0 0 0)"
proof -
  let ?m = "module 1 Dot Softmax True"
  let ?utr = "T3 (const3 1 1 2 (1 / 2))"
  have "\<exists>out. forward exact ?m (softmax exact) (T3 (const3 1 1 1 0)) (const3 1 3 1 0) (Some [2]) None
      (Some ?utr) (Some (units 1 3 1, [2])) = (const3 1 3 1 0, Inr out)"
    by (simp add: forward_eval all_upto_iff)
  then obtain out where ret: "forward exact ?m (softmax exact) (T3 (const3 1 1 1 0)) (const3 1 3 1 0)
      (Some [2]) None (Some ?utr) (Some (units 1 3 1, [2])) = (const3 1 3 1 0, Inr out)"
    by blast
  have "\<exists>a. word_level exact ?m (softmax exact) (T3 (const3 1 1 1 0)) (const3 1 3 1 0) [2] None = Inr a
          \<and> fl_le (at3 a 0 0 2) (at3 a 0 0 0)"
    by (simp add: word_level_def forward_eval sum_upto_numeral max_upto_numeral)
  then obtain a where wl: "word_level exact ?m (softmax exact) (T3 (const3 1 1 1 0)) (const3 1 3 1 0)
      [2] None = Inr a" and le: "fl_le (at3 a 0 0 2) (at3 a 0 0 0)"
    by blast
  have "\<exists>nt. norm_term exact ?m (softmax exact) (T3 (const3 1 1 1 0)) (const3 1 3 1 0) [2] None
      ?utr (Some (units 1 3 1, [2])) = Inr nt \<and> at3 nt 0 0 0 = Fin (1 / 2)"
    by (simp add: norm_term_def word_level_def forward_eval all_upto_iff sum_upto_numeral
        max_upto_numeral)
  then obtain nt where nt: "norm_term exact ?m (softmax exact) (T3 (const3 1 1 1 0)) (const3 1 3 1 0)
      [2] None ?utr (Some (units 1 3 1, [2])) = Inr nt" "at3 nt 0 0 0 = Fin (1 / 2)"
      "(1 / 2 :: real) \<noteq> 0"
    by auto
  have n: "attn_func ?m = Softmax \<or> (\<forall>s<d1 (const3 1 3 1 0). \<exists>x. at3 a 0 0 s = Fin x \<and> 0 \<le> x)"
    "seqHRE_attn_rescale ?m"
    by (simp_all add: module_def)
  have u: "0 < (1 / 2 :: real)"
    "\<forall>b'<d0 (promote ?utr). \<forall>t'<d1 (promote ?utr). \<forall>k<d2 (promote ?utr).
         at3 (promote ?utr) b' t' k = Fin (1 / 2)"
    by (simp_all add: promote_def const3_def)
  have i: "0 < d0 (const3 1 3 1 0)" "0 < d1 (promote (T3 (const3 1 1 1 0)))"
    "2 < d1 (const3 1 3 1 0)" "0 < d1 (const3 1 3 1 0)"
    by (simp_all add: promote_def const3_def)
  have "fl_le (out_align out 0 0 2) (out_align out 0 0 0)"
    using uniform_rescaling_keeps_order [OF ieee_exact n(2) ret u wl n(1) i nt] le by blast
  then show ?thesis by (simp only: ret snd_conv sum.sel)
qed

text \<open>
  A row without a valid position, under a sparse normalization that returns zeros for
  it (what the spec asks of an all-masked row): the two zero weights compare as equal
  before the rescaling; dividing by the \<^verbatim>\<open>norm_term\<close> 0 makes them NaN, which compares
  as false.
\<close>

theorem uniform_rescaling_keeps_order_counterexample:
  "\<exists>a out.
     word_level exact (module 1 Dot Sparsemax True) zeros_like (T3 (const3 1 1 1 0)) (const3 1 2 1 0)
       [0] None = Inr a \<and>
     forward exact (module 1 Dot Sparsemax True) zeros_like (T3 (const3 1 1 1 0)) (const3 1 2 1 0)
       (Some [0]) None (Some (T3 (const3 1 1 2 (1 / 2)))) (Some (units 1 2 0, [0]))
       = (const3 1 2 1 0, Inr out) \<and>
     fl_le (at3 a 0 0 0) (at3 a 0 0 1) \<and>
     \<not> fl_le (out_align out 0 0 0) (out_align out 0 0 1)"
  by (simp add: word_level_def forward_eval example_defs all_upto_iff sum_upto_numeral)

subsection \<open>A batch element of length 0\<close>

lemma zero_or_NaN_sum:
  assumes "ieee fp" "\<And>s. s < S \<Longrightarrow> p s = Fin 0 \<or> p s = NaN"
  shows "(sum_upto fp S p = Fin 0 \<and> (\<forall>s<S. p s = Fin 0)) \<or> sum_upto fp S p = NaN"
  using assms(2)
proof (induction S)
  case 0
  then show ?case by simp
next
  case (Suc S)
  have "p S = Fin 0 \<or> p S = NaN" using Suc.prems by simp
  moreover have "(sum_upto fp S p = Fin 0 \<and> (\<forall>s<S. p s = Fin 0)) \<or> sum_upto fp S p = NaN"
    using Suc by simp
  ultimately show ?case by (auto simp: less_Suc_eq ieee_add_zero_left [OF assms(1)])
qed

lemma NaN_row_context:
  assumes "0 < S" "\<And>s. s < S \<Longrightarrow> f s = NaN"
  shows "sum_upto fp S (\<lambda>l. fl_mul fp (f l) (g l)) = NaN"
  by (rule sum_upto_NaN [of 0]) (simp_all add: assms)

lemma zero_row_context:
  assumes "ieee fp" "\<And>s. s < S \<Longrightarrow> f s = Fin 0" "\<And>s. s < S \<Longrightarrow> is_fin (g s)"
  shows "sum_upto fp S (\<lambda>l. fl_mul fp (f l) (g l)) = Fin 0"
proof (intro sum_upto_zeros [OF assms(1)])
  fix i assume i: "i < S"
  obtain r where "g i = Fin r" using assms(3) [OF i] by (auto simp: is_fin_iff)
  then show "fl_mul fp (f i) (g i) = Fin 0"
    using assms(2) [OF i] by (simp add: ieee_mul_zero_left [OF assms(1)])
qed

text \<open>
  Claim C2, as amended. For a batch element whose length is 0 (the memory bank having at
  least one position), a call that returns gives, with softmax, a row of the attention
  distribution that is NaN at every position and a context vector that is NaN in every
  component, whatever the arithmetic on numbers. A sparse normalization that returns the
  all-zero row on an all-masked row (what the spec asks of it) gives, in every
  arithmetic with the IEEE properties \<open>ieee\<close>, the all-zero row and the zero context
  vector when the hierarchical rescaling is off and the memory bank is finite; with the
  rescaling on, the division by \<^verbatim>\<open>norm_term\<close> turns that row into NaN as well.
\<close>

theorem zero_length_rows:
  assumes ret: "forward fp m sparsemax source memory_bank (Some lens) cov (Some utr) ids = (buf, Inr out)"
    and b: "b < d0 memory_bank" and t: "t < d1 (promote source)"
    and len: "length_of lens b \<le> 0" and S: "0 < d1 memory_bank"
  shows "(attn_func m = Softmax \<or> (ieee fp \<and> zero_on_masked sparsemax \<and> seqHRE_attn_rescale m) \<longrightarrow>
            (\<forall>s<d1 memory_bank. out_align out b t s = NaN) \<and> (\<forall>k. out_c out b t k = NaN)) \<and>
         (ieee fp \<and> attn_func m = Sparsemax \<and> zero_on_masked sparsemax \<and> \<not> seqHRE_attn_rescale m \<and>
          finite3 memory_bank \<and> finite_coverage cov \<and> finite_weights m \<longrightarrow>
            (\<forall>s<d1 memory_bank. out_align out b t s = Fin 0) \<and>
            (\<forall>k<d2 memory_bank. out_c out b t k = Fin 0))"
proof -
  let ?S = "d1 memory_bank" and ?T = "d1 (promote source)" and ?B = "d0 memory_bank"
  obtain bank a where ic: "inject_coverage fp m memory_bank cov = Inr (buf, bank)"
    and wa: "word_attention fp m sparsemax (promote source) bank lens = Inr a"
    and sh: "d0 bank = ?B" "d1 bank = ?S" "d2 bank = d2 memory_bank" "mdim m = d2 memory_bank"
      "\<forall>c. cov = Some c \<longrightarrow> rows c = ?B \<and> cols c = ?S"
    and ctx: "\<forall>b t k. t < ?T \<longrightarrow>
        out_c out b t k = sum_upto fp ?S (\<lambda>l. fl_mul fp (out_align out b t l) (at3 bank b l k))"
    and off: "\<not> seqHRE_attn_rescale m \<longrightarrow> (\<forall>b t s. t < ?T \<longrightarrow> out_align out b t s = at3 a b t s)"
    and on': "seqHRE_attn_rescale m \<longrightarrow>
        (\<exists>p. reweight fp a lens (promote utr) ids ?T = Inr p \<and> d0 p = ?B \<and> d1 p = ?T \<and> d2 p = ?S \<and>
           (\<forall>b t s. b < ?B \<longrightarrow> t < ?T \<longrightarrow> s < ?S \<longrightarrow>
              out_align out b t s = fl_div fp (at3 p b t s) (sum_upto fp ?S (at3 p b t))) \<and>
           (\<exists>e. \<forall>b t s. b < ?B \<longrightarrow> t < ?T \<longrightarrow> s < ?S \<longrightarrow>
              at3 p b t s = fl_mul fp (at3 a b t s) (e b t s) \<and>
              (\<exists>b' u. b' < d0 (promote utr) \<and> t < d1 (promote utr) \<and> u < d2 (promote utr) \<and>
                 e b t s = at3 (promote utr) b' t u)))"
    using forward_parts [OF ret] by blast
  have ctx': "out_c out b t k = sum_upto fp ?S (\<lambda>l. fl_mul fp (out_align out b t l) (at3 bank b l k))" for k
    using ctx t by simp
  have nan_ctx: "\<forall>k. out_c out b t k = NaN" if "\<And>s. s < ?S \<Longrightarrow> out_align out b t s = NaN"
    using NaN_row_context [OF S that] by (simp add: ctx')
  have rescaled: "\<forall>s<?S. out_align out b t s = NaN"
    if on: "seqHRE_attn_rescale m"
      and a0: "(\<forall>s<?S. at3 a b t s = NaN) \<or> (ieee fp \<and> (\<forall>s<?S. at3 a b t s = Fin 0))"
  proof -
    obtain p e where p: "reweight fp a lens (promote utr) ids ?T = Inr p"
      and o: "\<And>s. s < ?S \<Longrightarrow> out_align out b t s = fl_div fp (at3 p b t s) (sum_upto fp ?S (at3 p b t))"
      and e: "\<And>s. s < ?S \<Longrightarrow> at3 p b t s = fl_mul fp (at3 a b t s) (e b t s)"
      using on' on b t by blast
    have "fl_div fp (at3 p b t s) (sum_upto fp ?S (at3 p b t)) = NaN" if "s < ?S" for s
      using a0
    proof
      assume "\<forall>s<?S. at3 a b t s = NaN"
      then have "at3 p b t s = NaN" using e that by simp
      then show ?thesis by simp
    next
      assume z: "ieee fp \<and> (\<forall>s<?S. at3 a b t s = Fin 0)"
      have pz: "at3 p b t s = Fin 0 \<or> at3 p b t s = NaN" if "s < ?S" for s
        using e [OF that] z that fl_mul_zero_cases [of fp "e b t s"] by auto
      show ?thesis
        using zero_or_NaN_sum [of fp ?S "at3 p b t", OF _ pz] z pz [OF that] that by auto
    qed
    then show ?thesis using o by simp
  qed
  have 1: "(\<forall>s<?S. out_align out b t s = NaN) \<and> (\<forall>k. out_c out b t k = NaN)"
    if sm: "attn_func m = Softmax"
  proof -
    have a: "at3 a b t s = NaN" if "s < ?S" for s
      using word_attention_all_masked [OF sm wa t len] that sh by simp
    have "\<forall>s<?S. out_align out b t s = NaN"
    proof (cases "seqHRE_attn_rescale m")
      case True
      then show ?thesis using rescaled a by simp
    next
      case False
      then show ?thesis using off t a by simp
    qed
    then show ?thesis using nan_ctx by simp
  qed
  have z: "at3 a b t s = Fin 0" if "attn_func m = Sparsemax" "zero_on_masked sparsemax" "s < ?S" for s
    using word_attention_zero_row [OF that(1,2) wa _ t len] that(3) b sh by simp
  have 2: "(\<forall>s<?S. out_align out b t s = NaN) \<and> (\<forall>k. out_c out b t k = NaN)"
    if "attn_func m \<noteq> Softmax" "ieee fp" "zero_on_masked sparsemax" "seqHRE_attn_rescale m"
  proof -
    have "attn_func m = Sparsemax" using that(1) by (cases "attn_func m") simp_all
    then have "\<forall>s<?S. out_align out b t s = NaN" using rescaled [OF that(4)] z that(2,3) by simp
    then show ?thesis using nan_ctx by simp
  qed
  have 3: "(\<forall>s<?S. out_align out b t s = Fin 0) \<and> (\<forall>k<d2 memory_bank. out_c out b t k = Fin 0)"
    if "ieee fp" "attn_func m = Sparsemax" "zero_on_masked sparsemax" "\<not> seqHRE_attn_rescale m"
      "finite3 memory_bank" "finite_coverage cov" "finite_weights m"
  proof -
    have bf: "finite3 bank"
      using inject_coverage_finite [OF that(1) ic that(5,6,7) sh(5,4)] .
    have o: "out_align out b t s = Fin 0" if "s < ?S" for s
      using off \<open>\<not> seqHRE_attn_rescale m\<close> t z [OF \<open>attn_func m = Sparsemax\<close> \<open>zero_on_masked sparsemax\<close> that]
      by simp
    have "out_c out b t k = Fin 0" if "k < d2 memory_bank" for k
      unfolding ctx'
      by (rule zero_row_context [OF \<open>ieee fp\<close>]) (use o bf b that sh in \<open>simp_all add: finite3D\<close>)
    then show ?thesis using o by simp
  qed
  show ?thesis using 1 2 3 by blast
qed

theorem zero_length_rows_witness:
  "out_align (projr (snd (forward exact (module 1 Dot Softmax False) zeros_like (T3 (const3 1 1 1 1))
      (const3 1 2 1 1) (Some [0]) None (Some (T3 (const3 1 1 1 1))) None))) 0 0 1 = NaN \<and>
   out_c (projr (snd (forward exact (module 1 Dot Softmax False) zeros_like (T3 (const3 1 1 1 1))
      (const3 1 2 1 1) (Some [0]) None (Some (T3 (const3 1 1 1 1))) None))) 0 0 0 = NaN \<and>
   out_align (projr (snd (forward exact (module 1 Dot Sparsemax False) zeros_like (T3 (const3 1 1 1 1))
      (const3 1 2 1 1) (Some [0]) None (Some (T3 (const3 1 1 1 1))) None))) 0 0 1 = Fin 0 \<and>
   out_c (projr (snd (forward exact (module 1 Dot Sparsemax False) zeros_like (T3 (const3 1 1 1 1))
      (const3 1 2 1 1) (Some [0]) None (Some (T3 (const3 1 1 1 1))) None))) 0 0 0 = Fin 0"
proof -
  let ?m = "module 1 Dot Softmax False" and ?m' = "module 1 Dot Sparsemax False"
  have "\<exists>out. forward exact ?m zeros_like (T3 (const3 1 1 1 1)) (const3 1 2 1 1) (Some [0]) None
      (Some (T3 (const3 1 1 1 1))) None = (const3 1 2 1 1, Inr out)"
    by (simp add: forward_eval)
  then obtain out where ret: "forward exact ?m zeros_like (T3 (const3 1 1 1 1)) (const3 1 2 1 1) (Some [0]) None
      (Some (T3 (const3 1 1 1 1))) None = (const3 1 2 1 1, Inr out)"
    by blast
  have "\<exists>out. forward exact ?m' zeros_like (T3 (const3 1 1 1 1)) (const3 1 2 1 1) (Some [0]) None
      (Some (T3 (const3 1 1 1 1))) None = (const3 1 2 1 1, Inr out)"
    by (simp add: forward_eval example_defs)
  then obtain out' where ret': "forward exact ?m' zeros_like (T3 (const3 1 1 1 1)) (const3 1 2 1 1) (Some [0]) None
      (Some (T3 (const3 1 1 1 1))) None = (const3 1 2 1 1, Inr out')"
    by blast
  have i: "0 < d0 (const3 1 2 1 1)" "0 < d1 (promote (T3 (const3 1 1 1 1)))"
    "length_of [0] 0 \<le> 0" "0 < d1 (const3 1 2 1 1)"
    by (simp_all add: promote_def const3_def length_of_def bc_idx_def)
  have z: "zero_on_masked zeros_like" by (simp add: zero_on_masked_def zeros_like_def)
  have f: "finite3 (const3 1 2 1 1)" "finite_coverage None" "finite_weights ?m'"
    by (simp_all add: finite3_def finite_coverage_def finite_weights_def const3_def module_def)
  have c: "attn_func ?m = Softmax" "attn_func ?m' = Sparsemax" "\<not> seqHRE_attn_rescale ?m'"
    "1 < d1 (const3 1 2 1 1)" "0 < d2 (const3 1 2 1 1)"
    by (simp_all add: module_def const3_def)
  have "out_align out 0 0 1 = NaN \<and> out_c out 0 0 0 = NaN"
    using zero_length_rows [OF ret i] c by blast
  moreover have "out_align out' 0 0 1 = Fin 0 \<and> out_c out' 0 0 0 = Fin 0"
    using zero_length_rows [OF ret' i] c z f ieee_exact by blast
  ultimately show ?thesis by (simp only: ret ret' snd_conv sum.sel)
qed

theorem zero_length_rows_counterexample:
  "\<exists>out. forward exact (module 1 Dot Softmax False) (softmax exact) (T2 (const2 1 1 1)) (const3 1 1 1 1)
      (Some [0]) None (Some (T2 (const2 1 1 1))) None = (const3 1 1 1 1, Inr out)
    \<and> out_align out 0 0 0 = NaN \<and> out_c out 0 0 0 = NaN"
  by (simp add: forward_eval)

subsection \<open>The general strategy with the identity transform\<close>

lemma identity_row_upto:
  assumes fp: "ieee fp" and fin: "\<And>k. k < D \<Longrightarrow> is_fin (f k)" and n: "n \<le> D"
  shows "sum_upto fp n (\<lambda>k. fl_mul fp (f k) (if l = k then Fin 1 else Fin 0))
         = (if l < n then f l else Fin 0)"
  using n
proof (induction n)
  case 0
  then show ?case by simp
next
  case (Suc n)
  have ih: "sum_upto fp n (\<lambda>k. fl_mul fp (f k) (if l = k then Fin 1 else Fin 0))
         = (if l < n then f l else Fin 0)"
    using Suc by simp
  obtain a where a: "f n = Fin a" using fin [of n] Suc.prems by (auto simp: is_fin_iff)
  show ?case
  proof (cases "l < n")
    case True
    then obtain c where c: "f l = Fin c" using fin [of l] Suc.prems by (auto simp: is_fin_iff)
    show ?thesis
      using True ih a c by (simp add: ieee_mul_zero_right [OF fp] ieee_add_zero_right [OF fp])
  next
    case False
    show ?thesis
    proof (cases "l = n")
      case True
      then show ?thesis
        using ih a by (simp add: ieee_mul_one_right [OF fp] ieee_add_zero_left [OF fp])
    next
      case False
      then show ?thesis
        using \<open>\<not> l < n\<close> ih a
        by (simp add: ieee_mul_zero_right [OF fp] ieee_add_zero_left [OF fp])
    qed
  qed
qed

lemma identity_row:
  assumes "ieee fp" "\<And>k. k < D \<Longrightarrow> is_fin (f k)" "l < D"
  shows "sum_upto fp D (\<lambda>k. fl_mul fp (f k) (if l = k then Fin 1 else Fin 0)) = f l"
  using identity_row_upto [of fp D f D l] assms by simp

lemma score_luong_returns:
  assumes "attn_type m = General \<or> attn_type m = Dot"
    "d0 h_s = d0 h_t" "d2 h_s = d2 h_t" "mdim m = d2 h_s"
  shows "\<exists>w. score fp m h_t h_s = Inr w"
  using assms
  by (auto simp: score_def Let_def view_2d_def view_3d_def nn_linear_def bmm_def transpose12_def)

lemma score_checks_fail:
  assumes "\<not> (d0 h_s = d0 h_t \<and> d2 h_s = d2 h_t \<and> mdim m = d2 h_s)"
  shows "score fp m h_t h_s =
     Inl (AeqError (if d0 h_t \<noteq> d0 h_s then [d0 h_s, d0 h_t]
                    else if d2 h_t \<noteq> d2 h_s then [d2 h_s, d2 h_t] else [mdim m, d2 h_s]))"
  using assms by (auto simp: score_def Let_def)

text \<open>
  Claim C6, as amended. For a query whose elements are numbers (no infinity and no
  NaN), the \<^verbatim>\<open>general\<close> strategy whose \<^verbatim>\<open>linear_in\<close> weight is the identity matrix and
  the \<^verbatim>\<open>dot\<close> strategy give the same result on the same inputs, in every arithmetic
  with the IEEE properties \<open>ieee\<close>: the same error when the sizes disagree, and
  otherwise scores of one shape that are equal as numbers, element by element. (The
  product with the identity matrix is exact: it multiplies by 1 and by 0 and adds
  zeros.)
\<close>

theorem general_identity_is_dot:
  assumes fp: "ieee fp" and fin: "finite3 h_t"
    and g: "attn_type m = General" "linear_in m = (\<lambda>i j. if i = j then Fin 1 else Fin 0)"
  shows "same_scores (score fp m h_t h_s) (score fp (m\<lparr>attn_type := Dot\<rparr>) h_t h_s)"
proof (cases "d0 h_s = d0 h_t \<and> d2 h_s = d2 h_t \<and> mdim m = d2 h_s")
  case False
  then have "\<not> (d0 h_s = d0 h_t \<and> d2 h_s = d2 h_t \<and> mdim (m\<lparr>attn_type := Dot\<rparr>) = d2 h_s)" by simp
  from score_checks_fail [OF False] score_checks_fail [OF this]
  show ?thesis by (simp add: same_scores_def)
next
  case True
  let ?m' = "m\<lparr>attn_type := Dot\<rparr>"
  obtain w where w: "score fp m h_t h_s = Inr w"
    using score_luong_returns [of m h_s h_t fp] g True by auto
  obtain w' where w': "score fp ?m' h_t h_s = Inr w'"
    using score_luong_returns [of ?m' h_s h_t fp] True by auto
  have d: "attn_type ?m' = Dot" by simp
  have "at3 w b t s = at3 w' b t s" if "b < d0 h_t" "t < d1 h_t" for b t s
  proof -
    have hf: "is_fin (at3 h_t b t k)" if "k < d2 h_t" for k
      using finite3D [OF fin \<open>b < d0 h_t\<close> \<open>t < d1 h_t\<close> that] .
    have "sum_upto fp (d2 h_t) (\<lambda>k. fl_mul fp (at3 h_t b t k) (linear_in m l k)) = at3 h_t b t l"
      if "l < d2 h_t" for l
    proof -
      have "linear_in m l k = (if l = k then Fin 1 else Fin 0)" for k
        by (simp add: g(2))
      then have "sum_upto fp (d2 h_t) (\<lambda>k. fl_mul fp (at3 h_t b t k) (linear_in m l k))
        = sum_upto fp (d2 h_t) (\<lambda>k. fl_mul fp (at3 h_t b t k) (if l = k then Fin 1 else Fin 0))"
        by simp
      also have "\<dots> = at3 h_t b t l"
        using identity_row [OF fp, of "d2 h_t" "at3 h_t b t" l] hf that by blast
      finally show ?thesis .
    qed
    then have "at3 w b t s = sum_upto fp (d2 h_t) (\<lambda>l. fl_mul fp (at3 h_t b t l) (at3 h_s b s l))"
      unfolding score_general [OF g(1) w that]
      by (intro sum_upto_cong) simp
    then show ?thesis by (simp add: score_dot [OF d w'])
  qed
  moreover have "d0 w = d0 h_t" "d1 w = d1 h_t" "d2 w = d1 h_s"
    using score_shape [OF w] by blast+
  moreover have "d0 w' = d0 h_t" "d1 w' = d1 h_t" "d2 w' = d1 h_s"
    using score_shape [OF w'] by blast+
  ultimately have "d0 w = d0 w' \<and> d1 w = d1 w' \<and> d2 w = d2 w' \<and>
               (\<forall>b<d0 w. \<forall>t<d1 w. \<forall>s<d2 w. at3 w b t s = at3 w' b t s)"
    by metis
  then show ?thesis
    unfolding same_scores_def w w' by simp
qed


theorem general_identity_is_dot_witness:
  "same_scores
     (score exact ((module 2 General Softmax False)\<lparr>linear_in := (\<lambda>i j. if i = j then Fin 1 else Fin 0)\<rparr>)
        (const3 1 1 2 3) (const3 1 3 2 5))
     (score exact ((module 2 General Softmax False)\<lparr>linear_in := (\<lambda>i j. if i = j then Fin 1 else Fin 0),
                                                attn_type := Dot\<rparr>)
        (const3 1 1 2 3) (const3 1 3 2 5))"
  using general_identity_is_dot
    [OF ieee_exact, of "const3 1 1 2 3"
        "(module 2 General Softmax False)\<lparr>linear_in := (\<lambda>i j. if i = j then Fin 1 else Fin 0)\<rparr>"
        "const3 1 3 2 5"]
  by (simp add: finite3_def const3_def module_def)

text \<open>A query that holds \<open>+\<infinity>\<close>: the identity transform turns the other feature into
  NaN (\<open>\<infinity> \<sdot> 0\<close>), and the score with it; the \<^verbatim>\<open>dot\<close> score is \<open>+\<infinity>\<close>.\<close>

theorem general_identity_is_dot_counterexample:
  "(\<exists>w. score exact ((module 2 General Softmax False)\<lparr>linear_in := (\<lambda>i j. if i = j then Fin 1 else Fin 0)\<rparr>)
          inf_then_zero (const3 1 1 2 1) = Inr w \<and> at3 w 0 0 0 = NaN) \<and>
   (\<exists>w. score exact ((module 2 General Softmax False)\<lparr>linear_in := (\<lambda>i j. if i = j then Fin 1 else Fin 0),
                                                     attn_type := Dot\<rparr>)
          inf_then_zero (const3 1 1 2 1) = Inr w \<and> at3 w 0 0 0 = PInf)"
  by (simp add: score_def Let_def view_2d_def view_3d_def nn_linear_def bmm_def transpose12_def
      flat2_def flat3_def module_def const3_def inf_then_zero_def
      sum_upto_numeral)

subsection \<open>Size checks\<close>

text \<open>
  Claim C8, as amended. When \<^verbatim>\<open>utr_align_vectors\<close> is given and the sizes of
  \<^verbatim>\<open>source\<close>, \<^verbatim>\<open>memory_bank\<close> and \<^verbatim>\<open>utr_align_vectors\<close> disagree in the batch, the
  feature dimension (also against the configured \<^verbatim>\<open>dim\<close>) or the target length, the
  call ends with the error of the first failing \<^verbatim>\<open>aeq\<close> of lines 178-181, which carries
  the compared values, not all equal; nothing has been computed by then and the caller's
  memory bank is as it was. The same holds for a coverage vector whose sizes disagree
  with the memory bank (lines 189-190), once the lengths are given.
\<close>

theorem size_mismatch_raises:
  fixes source u memory_bank m
  defines "batch \<equiv> d0 memory_bank" and "source_l \<equiv> d1 memory_bank" and "dm \<equiv> d2 memory_bank"
    and "batch' \<equiv> d0 (promote source)" and "target_l \<equiv> d1 (promote source)"
    and "dm' \<equiv> d2 (promote source)"
    and "batch'' \<equiv> d0 (promote u)" and "target_l' \<equiv> d1 (promote u)"
  shows "(batch' \<noteq> batch \<or> batch'' \<noteq> batch \<or> dm' \<noteq> dm \<or> mdim m \<noteq> dm \<or> target_l' \<noteq> target_l \<longrightarrow>
           forward fp m sparsemax source memory_bank lens cov (Some u) ids =
             (memory_bank,
              Inl (AeqError
                (if batch' \<noteq> batch \<or> batch'' \<noteq> batch then [batch, batch', batch'']
                 else if dm' \<noteq> dm then [dm, dm']
                 else if mdim m \<noteq> dm then [mdim m, dm]
                 else [target_l, target_l'])))) \<and>
         (batch' = batch \<and> batch'' = batch \<and> dm' = dm \<and> mdim m = dm \<and> target_l' = target_l \<and>
          lens = Some lengths \<and> cov = Some c \<and> (rows c \<noteq> batch \<or> cols c \<noteq> source_l) \<longrightarrow>
           forward fp m sparsemax source memory_bank lens cov (Some u) ids =
             (memory_bank,
              Inl (AeqError
                (if rows c \<noteq> batch then [batch, rows c] else [source_l, cols c]))))"
  unfolding batch_def source_l_def dm_def batch'_def target_l_def dm'_def batch''_def target_l'_def
  by (auto simp: forward_def check_inputs_def Let_def)

theorem size_mismatch_raises_witness:
  "forward exact (module 4 Dot Softmax False) (softmax exact) (T2 (const2 1 4 1)) (const3 1 3 5 1)
     (Some [2]) None (Some (T2 (const2 1 2 1))) None = (const3 1 3 5 1, Inl (AeqError [5, 4])) \<and>
   forward exact (module 4 Dot Softmax False) (softmax exact) (T2 (const2 1 4 1)) (const3 1 3 4 1)
     (Some [2]) (Some (const2 2 3 0)) (Some (T2 (const2 1 2 1))) None
     = (const3 1 3 4 1, Inl (AeqError [1, 2]))"
  using size_mismatch_raises [of "T2 (const2 1 4 1)" "const3 1 3 5 1" "T2 (const2 1 2 1)"
      "module 4 Dot Softmax False" exact "softmax exact" "Some [2]" None None "[2]" "const2 2 3 0"]
    size_mismatch_raises [of "T2 (const2 1 4 1)" "const3 1 3 4 1" "T2 (const2 1 2 1)"
      "module 4 Dot Softmax False" exact "softmax exact" "Some [2]" "Some (const2 2 3 0)" None "[2]"
      "const2 2 3 0"]
  by (simp add: promote_def unsqueeze1_def const2_def const3_def module_def)

text \<open>
  Sizes that are not compared. A lengths vector of one element is taken for a batch of
  two: the mask of line 202 is broadcast over the batch and the call returns. And without
  \<^verbatim>\<open>utr_align_vectors\<close> (its default), a feature dimension of 4 against a memory bank
  of dimension 5 ends with the AttributeError of line 172, which carries no sizes.
\<close>

theorem size_mismatch_raises_counterexample:
  "(\<exists>out. forward exact (module 1 Dot Softmax False) (softmax exact) (T3 (const3 2 1 1 1))
      (const3 2 1 1 1) (Some [1]) None (Some (T3 (const3 2 1 1 1))) None
        = (const3 2 1 1 1, Inr out)) \<and>
   forward exact (module 4 Dot Softmax False) (softmax exact) (T2 (const2 1 4 1)) (const3 1 3 5 1)
     (Some [2]) None None None = (const3 1 3 5 1, Inl AttributeError)"
  by (simp add: forward_eval)

subsection \<open>Lengths of the unit assignment\<close>

lemma eq_all_differ:
  assumes "i < length a" "i < length b" "a ! i \<noteq> b ! i"
  shows "eq_all a b \<noteq> Inr True"
proof -
  have 1: "\<not> list_all2 (\<lambda>x y. x = y) a b"
    using assms by (auto simp: list_all2_conv_all_nth)
  have 2: "\<not> list_all (\<lambda>y. a ! 0 = y) b" if "length a = 1"
  proof -
    have "i = 0" using that assms(1) by simp
    then have "b ! 0 \<in> set b" "a ! 0 \<noteq> b ! 0" using assms by auto
    then show ?thesis by (auto simp: list_all_iff)
  qed
  have 3: "\<not> list_all (\<lambda>x. x = b ! 0) a" if "length b = 1"
  proof -
    have "i = 0" using that assms(2) by simp
    then have "a ! 0 \<in> set a" "a ! 0 \<noteq> b ! 0" using assms by auto
    then show ?thesis by (auto simp: list_all_iff)
  qed
  show ?thesis using 1 2 3 by (auto simp: eq_all_def)
qed

lemma score_rescale_flag:
  "score fp (m\<lparr>seqHRE_attn_rescale := x\<rparr>) h_t h_s = score fp m h_t h_s"
  by (simp add: score_def Let_def cong del: if_weak_cong)

lemma cover_projection_rescale_flag:
  "cover_projection fp (m\<lparr>seqHRE_attn_rescale := x\<rparr>) c mb = cover_projection fp m c mb"
  by (simp add: cover_projection_def)

lemma rescale_flag_irrelevant:
  "check_inputs (m\<lparr>seqHRE_attn_rescale := x\<rparr>) src mb utr lens cov = check_inputs m src mb utr lens cov"
  "inject_coverage fp (m\<lparr>seqHRE_attn_rescale := x\<rparr>) mb cov = inject_coverage fp m mb cov"
  "word_attention fp (m\<lparr>seqHRE_attn_rescale := x\<rparr>) sp src bank L = word_attention fp m sp src bank L"
  by (simp_all add: check_inputs_def inject_coverage_def cover_projection_rescale_flag
      word_attention_def score_rescale_flag normalize_def split: option.splits)

text \<open>
  Claim C9. With the hierarchical rescaling on, a call whose \<^verbatim>\<open>src_word_utr_ids\<close> carries
  a lengths vector that differs from \<^verbatim>\<open>memory_lengths\<close> in some element never returns: it
  ends with an exception, and no rescaled distribution is produced. When the two vectors
  have the same number of elements and the call would return with the rescaling off,
  the exception is the AssertionError of line 215.
\<close>

theorem length_disagreement_raises:
  assumes on: "seqHRE_attn_rescale m"
    and differ: "i < length lens" "i < length lens'" "lens ! i \<noteq> lens' ! i"
  shows "(\<exists>e. snd (forward fp m sparsemax source memory_bank (Some lens) cov utr (Some (w, lens'))) = Inl e) \<and>
         (length lens = length lens' \<and>
          (\<exists>out. snd (forward fp (m\<lparr>seqHRE_attn_rescale := False\<rparr>) sparsemax source memory_bank
                         (Some lens) cov utr (Some (w, lens'))) = Inr out) \<longrightarrow>
          snd (forward fp m sparsemax source memory_bank (Some lens) cov utr (Some (w, lens')))
            = Inl SrcLengthsDisagree)"
proof -
  let ?ids = "Some (w, lens')"
  let ?f = "forward fp m sparsemax source memory_bank (Some lens) cov utr ?ids"
  have ne: "eq_all lens lens' \<noteq> Inr True" using eq_all_differ [OF differ] .
  have 1: "\<exists>e. snd ?f = Inl e"
  proof (cases "snd ?f")
    case (Inl e)
    then show ?thesis by simp
  next
    case (Inr out)
    then have ret: "?f = (fst ?f, Inr out)" by (simp add: prod_eq_iff)
    obtain u L a a' where "utr = Some u"
      and "hre_rescale fp m a L (promote u) ?ids (d1 (promote source)) = Inr a'"
      and "check_inputs m (promote source) memory_bank (promote u) (Some lens) cov = Inr L"
      using forward_Inr [OF ret] by blast
    then have "reweight fp a lens (promote u) ?ids (d1 (promote source)) \<noteq> Inl SrcLengthsDisagree
        \<and> (\<exists>p. reweight fp a lens (promote u) ?ids (d1 (promote source)) = Inr p)"
      using on check_inputs_Inr [of m "promote source" memory_bank "promote u" "Some lens" cov L]
      by (auto simp: hre_rescale_def bind_err_eq_Inr Let_def)
    then have "eq_all lens lens' = Inr True"
      by (auto simp: reweight_def bind_err_eq_Inr split: if_splits)
    then show ?thesis using ne by simp
  qed
  have 2: "snd ?f = Inl SrcLengthsDisagree"
    if same: "length lens = length lens'"
      and off: "snd (forward fp (m\<lparr>seqHRE_attn_rescale := False\<rparr>) sparsemax source memory_bank
                         (Some lens) cov utr ?ids) = Inr out" for out
  proof -
    let ?m' = "m\<lparr>seqHRE_attn_rescale := False\<rparr>"
    let ?g = "forward fp ?m' sparsemax source memory_bank (Some lens) cov utr ?ids"
    obtain buf where ret: "?g = (buf, Inr out)" using off by (cases ?g) simp
    obtain u L and bank :: "tfloat tensor3" and a where u: "utr = Some u"
      and ci: "check_inputs ?m' (promote source) memory_bank (promote u) (Some lens) cov = Inr L"
      and ic: "inject_coverage fp ?m' memory_bank cov = Inr (buf, bank)"
      and wa: "word_attention fp ?m' sparsemax (promote source) bank L = Inr a"
      using forward_Inr [OF ret] by blast
    have L: "L = lens" using check_inputs_Inr [OF ci] by simp
    have e: "eq_all lens lens' = Inr False" using ne same by (auto simp: eq_all_def)
    have "hre_rescale fp m a lens (promote u) ?ids (d1 (promote source)) = Inl SrcLengthsDisagree"
      using on e by (simp add: hre_rescale_def reweight_def)
    then have "attend fp m sparsemax (case source of T2 q \<Rightarrow> True | T3 q \<Rightarrow> False) (promote source)
        bank lens (promote u) ?ids = Inl SrcLengthsDisagree"
      using wa [unfolded rescale_flag_irrelevant L] by (simp add: attend_def Let_def)
    then show ?thesis
      using u ci [unfolded rescale_flag_irrelevant L] ic [unfolded rescale_flag_irrelevant]
      by (simp add: forward_def Let_def)
  qed
  show ?thesis using 1 2 by blast
qed

theorem length_disagreement_raises_witness:
  "snd (forward exact (module 1 Dot Softmax True) (softmax exact) (T3 (const3 1 1 1 0)) (const3 1 3 1 0)
      (Some [2]) None (Some (T3 unit0_only)) (Some (units 1 3 0, [3]))) = Inl SrcLengthsDisagree"
proof -
  let ?m = "module 1 Dot Softmax True"
  have off: "\<exists>out. snd (forward exact (?m\<lparr>seqHRE_attn_rescale := False\<rparr>) (softmax exact)
      (T3 (const3 1 1 1 0)) (const3 1 3 1 0) (Some [2]) None (Some (T3 unit0_only))
      (Some (units 1 3 0, [3]))) = Inr out"
    by (simp add: forward_eval)
  have on: "seqHRE_attn_rescale ?m" by (simp add: module_def)
  have d: "0 < length [2::int]" "0 < length [3::int]" "[2::int] ! 0 \<noteq> [3] ! 0"
    "length [2::int] = length [3::int]"
    by simp_all
  show ?thesis
    using length_disagreement_raises [OF on d(1,2,3), of exact "softmax exact" "T3 (const3 1 1 1 0)"
        "const3 1 3 1 0" None "Some (T3 unit0_only)" "units 1 3 0"] off d(4)
    by blast
qed

subsection \<open>Coverage and the caller's memory bank\<close>

lemma check_inputs_other_bank:
  assumes "check_inputs m src mb utr lens cov = Inr L"
    "d0 mb' = d0 mb" "d1 mb' = d1 mb" "d2 mb' = d2 mb"
  shows "check_inputs m src mb' utr lens None = Inr L"
  using assms
  by (auto simp: check_inputs_def Let_def bind_err_eq_Inr split: if_splits option.splits)

lemma check_inputs_sizes:
  assumes "d0 src = d0 mb" "d0 utr = d0 mb" "d2 src = d2 mb" "mdim m = d2 mb" "d1 utr = d1 src"
    "rows c = d0 mb" "cols c = d1 mb"
  shows "check_inputs m src mb utr (Some L) (Some c) = Inr L"
  using assms by (simp add: check_inputs_def Let_def)

lemma cover_projection_returns:
  assumes "coverage m" "rows c = d0 mb" "cols c = d1 mb" "mdim m = d2 mb"
  shows "\<exists>p. cover_projection fp m c mb = Inr p"
  using assms by (simp add: cover_projection_def nn_linear_def view_column_def view_3d_def)

text \<open>
  Claim C10. Without a coverage vector a call leaves the caller's memory bank as it was.
  With one, a call that passes the size checks of lines 175-190 (on a module that has
  the layer \<^verbatim>\<open>linear_cover\<close>) projects the coverage linearly (one input feature, no
  bias: \<open>coverage[i, j] \<sdot> W[k, 0]\<close>, accumulated from 0), adds the projection into the
  caller's memory bank in place, whatever happens later in the call, and scores
  \<open>tanh (memory_bank + projection)\<close>: it returns, or raises, what a call without coverage
  does on that bank.
\<close>

theorem coverage_injection:
  "fst (forward fp m sparsemax source memory_bank lens None utr ids) = memory_bank \<and>
   (coverage m \<and> utr = Some u \<and> lens = Some L \<and>
    d0 (promote source) = d0 memory_bank \<and> d0 (promote u) = d0 memory_bank \<and>
    d2 (promote source) = d2 memory_bank \<and> mdim m = d2 memory_bank \<and>
    d1 (promote u) = d1 (promote source) \<and> rows c = d0 memory_bank \<and> cols c = d1 memory_bank \<longrightarrow>
      (\<exists>p. cover_projection fp m c memory_bank = Inr p \<and>
           (\<forall>i j k. j < d1 memory_bank \<longrightarrow> k < d2 memory_bank \<longrightarrow>
              at3 p i j k = fl_add fp (Fin 0) (fl_mul fp (at2 c i j) (linear_cover m k 0))) \<and>
           fst (forward fp m sparsemax source memory_bank lens (Some c) utr ids)
             = add3 fp memory_bank p \<and>
           raw_scores fp m source memory_bank (Some c)
             = score fp m (promote source) (tanh3 fp (add3 fp memory_bank p)) \<and>
           snd (forward fp m sparsemax source memory_bank lens (Some c) utr ids)
             = snd (forward fp m sparsemax source (tanh3 fp (add3 fp memory_bank p)) lens None utr ids)))"
proof -
  have 1: "fst (forward fp m sparsemax source memory_bank lens None utr ids) = memory_bank"
  proof (cases utr)
    case None
    then show ?thesis by (simp add: forward_def Let_def)
  next
    case (Some u)
    show ?thesis
    proof (cases "check_inputs m (promote source) memory_bank (promote u) lens None")
      case (Inl e)
      then show ?thesis using Some by (simp add: forward_def Let_def)
    next
      case (Inr L)
      then show ?thesis using Some by (simp add: forward_def Let_def inject_coverage_def)
    qed
  qed
  have 2: "\<exists>p. cover_projection fp m c memory_bank = Inr p \<and>
           (\<forall>i j k. j < d1 memory_bank \<longrightarrow> k < d2 memory_bank \<longrightarrow>
              at3 p i j k = fl_add fp (Fin 0) (fl_mul fp (at2 c i j) (linear_cover m k 0))) \<and>
           fst (forward fp m sparsemax source memory_bank lens (Some c) utr ids)
             = add3 fp memory_bank p \<and>
           raw_scores fp m source memory_bank (Some c)
             = score fp m (promote source) (tanh3 fp (add3 fp memory_bank p)) \<and>
           snd (forward fp m sparsemax source memory_bank lens (Some c) utr ids)
             = snd (forward fp m sparsemax source (tanh3 fp (add3 fp memory_bank p)) lens None utr ids)"
    if cm: "coverage m" and u: "utr = Some u" and L: "lens = Some L"
      and sz: "d0 (promote source) = d0 memory_bank" "d0 (promote u) = d0 memory_bank"
        "d2 (promote source) = d2 memory_bank" "mdim m = d2 memory_bank"
        "d1 (promote u) = d1 (promote source)"
      and sc: "rows c = d0 memory_bank" "cols c = d1 memory_bank"
  proof -
    let ?one = "case source of T2 q \<Rightarrow> True | T3 q \<Rightarrow> False"
    have ci: "check_inputs m (promote source) memory_bank (promote u) lens (Some c) = Inr L"
      unfolding L by (rule check_inputs_sizes [OF sz sc])
    obtain p where p: "cover_projection fp m c memory_bank = Inr p"
      using cover_projection_returns [OF cm sc sz(4)] by blast
    define bank where "bank = tanh3 fp (add3 fp memory_bank p)"
    have ic: "inject_coverage fp m memory_bank (Some c) = Inr (add3 fp memory_bank p, bank)"
      by (simp add: inject_coverage_def p Let_def bank_def)
    have f: "forward fp m sparsemax source memory_bank lens (Some c) utr ids
             = (add3 fp memory_bank p,
                attend fp m sparsemax ?one (promote source) bank L (promote u) ids)"
      by (simp add: forward_def Let_def u ci ic)
    have v: "at3 p i j k = fl_add fp (Fin 0) (fl_mul fp (at2 c i j) (linear_cover m k 0))"
      if "j < d1 memory_bank" "k < d2 memory_bank" for i j k
      using cover_projection_values [OF p sc sz(4)] that by simp
    have ci': "check_inputs m (promote source) bank (promote u) lens None = Inr L"
      by (rule check_inputs_other_bank [OF ci]) (simp_all add: bank_def tanh3_def add3_def)
    have g: "forward fp m sparsemax source bank lens None utr ids
             = (bank, attend fp m sparsemax ?one (promote source) bank L (promote u) ids)"
      by (simp add: forward_def Let_def inject_coverage_def u ci')
    have r: "raw_scores fp m source memory_bank (Some c) = score fp m (promote source) bank"
      by (simp add: raw_scores_def ic)
    show ?thesis using p v f g r unfolding bank_def by simp
  qed
  show ?thesis using 1 2 by blast
qed

theorem coverage_injection_witness:
  "fst (forward exact (module 1 Dot Softmax False) (softmax exact) (T3 (const3 1 1 1 1))
     (const3 1 1 1 1) (Some [1]) None (Some (T3 (const3 1 1 1 1))) None) = const3 1 1 1 1 \<and>
   at3 (fst (forward exact ((module 1 Dot Softmax False)\<lparr>coverage := True, linear_cover := (\<lambda>i j. Fin 2)\<rparr>)
     (softmax exact) (T3 (const3 1 1 1 1)) (const3 1 1 1 1) (Some [1]) (Some (const2 1 1 3))
     (Some (T3 (const3 1 1 1 1))) None)) 0 0 0 = Fin 7 \<and>
   out_c (projr (snd (forward exact ((module 1 Dot Softmax False)\<lparr>coverage := True, linear_cover := (\<lambda>i j. Fin 2)\<rparr>)
     (softmax exact) (T3 (const3 1 1 1 1)) (const3 1 1 1 1) (Some [1]) (Some (const2 1 1 3))
     (Some (T3 (const3 1 1 1 1))) None))) 0 0 0 = Fin (tanh 7)"
proof -
  let ?m = "(module 1 Dot Softmax False)\<lparr>coverage := True, linear_cover := (\<lambda>i j. Fin 2)\<rparr>"
  let ?src = "T3 (const3 1 1 1 1)" and ?mb = "const3 1 1 1 1" and ?c = "const2 1 1 3"
  have h: "coverage ?m \<and> Some ?src = Some ?src \<and> Some [1::int] = Some [1] \<and>
    d0 (promote ?src) = d0 ?mb \<and> d0 (promote ?src) = d0 ?mb \<and>
    d2 (promote ?src) = d2 ?mb \<and> mdim ?m = d2 ?mb \<and>
    d1 (promote ?src) = d1 (promote ?src) \<and> rows ?c = d0 ?mb \<and> cols ?c = d1 ?mb"
    by (simp add: module_def promote_def const3_def const2_def)
  from coverage_injection [of exact ?m "softmax exact" ?src ?mb "Some [1]" "Some ?src" None ?src "[1]" ?c] h
  obtain p where p: "at3 p 0 0 0 = fl_add exact (Fin 0) (fl_mul exact (at2 ?c 0 0) (linear_cover ?m 0 0))"
    and b: "fst (forward exact ?m (softmax exact) ?src ?mb (Some [1]) (Some ?c) (Some ?src) None)
             = add3 exact ?mb p"
    and r: "snd (forward exact ?m (softmax exact) ?src ?mb (Some [1]) (Some ?c) (Some ?src) None)
             = snd (forward exact ?m (softmax exact) ?src (tanh3 exact (add3 exact ?mb p)) (Some [1])
                      None (Some ?src) None)"
    by (auto simp: const3_def)
  have p6: "at3 p 0 0 0 = Fin 6" using p by (simp add: const2_def module_def)
  have 1: "fst (forward exact (module 1 Dot Softmax False) (softmax exact) ?src ?mb (Some [1]) None
             (Some ?src) None) = ?mb"
    using coverage_injection [of exact "module 1 Dot Softmax False" "softmax exact" ?src ?mb
        "Some [1]" "Some ?src" None] by blast
  have 2: "at3 (add3 exact ?mb p) 0 0 0 = Fin 7" using p6 by (simp add: add3_def const3_def)
  have 3: "out_c (projr (snd (forward exact ?m (softmax exact) ?src (tanh3 exact (add3 exact ?mb p))
             (Some [1]) None (Some ?src) None))) 0 0 0 = Fin (tanh 7)"
    using p6 by (simp add: forward_eval tanh3_def add3_def)
  show ?thesis using 1 2 3 by (simp only: b r)
qed

subsection \<open>One-step and multi-step calls\<close>

lemma hre_rescale_d1:
  assumes "hre_rescale fp m a L utr ids T = Inr a'" "d1 a = T"
  shows "d1 a' = T"
proof (cases "seqHRE_attn_rescale m")
  case False
  then show ?thesis using assms by (simp add: hre_rescale_def)
next
  case True
  then obtain p where p: "reweight fp a L utr ids T = Inr p"
    and d: "broadcast_op (fl_div fp) p (sum_last fp p) = Inr a'"
    using assms(1) by (auto simp: hre_rescale_def bind_err_eq_Inr Let_def)
  obtain w g where "gather_last utr (unsqueeze_expand w T) = Inr g"
    and b: "broadcast_op (fl_mul fp) a g = Inr p"
    using p by (auto simp: reweight_def bind_err_eq_Inr split: option.splits if_splits)
  then have "d1 g = T" by (auto simp: gather_last_Inr unsqueeze_expand_def)
  then have "d1 p = T" using b assms(2) by (auto simp: broadcast_op_Inr bc_size_def)
  then show ?thesis using d by (auto simp: broadcast_op_Inr bc_size_def sum_last_def)
qed

lemma project_out_shape:
  assumes "project_out fp m c src B T D = Inr (Some h)"
  shows "d0 h = B \<and> d1 h = T \<and> d2 h = D"
  using assms
  by (auto simp: project_out_def bind_err_eq_Inr view_3d_Inr tanh3_def split: if_splits)

lemma finish_modes:
  assumes c: "d0 c = B" "d1 c = 1" "d2 c = D"
    and a: "d0 a = B" "d1 a = 1" "d2 a = S"
    and h: "\<And>x. h = Some x \<Longrightarrow> d0 x = B \<and> d1 x = 1 \<and> d2 x = D"
  shows "\<exists>out out'. finish True B 1 S D c h a = Inr out \<and> finish False B 1 S D c h a = Inr out' \<and>
           same_numbers out out'"
proof (cases h)
  case None
  then show ?thesis
    using c a
    by (simp add: finish_def squeeze1_def transpose01_def Let_def same_numbers_def same_numbers2_def)
next
  case (Some x)
  then show ?thesis
    using c a h [OF Some]
    by (simp add: finish_def squeeze1_def transpose01_def Let_def same_numbers_def same_numbers2_def)
qed

lemma attend_modes:
  assumes T: "d1 src = 1"
  shows "case attend fp m sp True src bank L utr ids of
           Inl e \<Rightarrow> attend fp m sp False src bank L utr ids = Inl e
         | Inr out \<Rightarrow> (\<exists>out'. attend fp m sp False src bank L utr ids = Inr out' \<and> same_numbers out out')"
proof (cases "word_attention fp m sp src bank L")
  case (Inl e)
  then show ?thesis by (simp add: attend_def Let_def)
next
  case wa: (Inr a)
  show ?thesis
  proof (cases "hre_rescale fp m a L utr ids (d1 src)")
    case (Inl e)
    then show ?thesis using wa by (simp add: attend_def Let_def)
  next
    case hr: (Inr a')
    show ?thesis
    proof (cases "bmm fp a' bank")
      case (Inl e)
      then show ?thesis using wa hr by (simp add: attend_def Let_def)
    next
      case bm: (Inr c)
      show ?thesis
      proof (cases "project_out fp m c src (d0 bank) (d1 src) (d2 bank)")
        case (Inl e)
        then show ?thesis using wa hr bm by (simp add: attend_def Let_def)
      next
        case po: (Inr h)
        have a1: "d1 a' = 1"
          using hre_rescale_d1 [OF hr] word_attention_shape [OF wa] T by simp
        have as: "d0 a' = d0 bank" "d2 a' = d1 bank" using bm by (simp_all add: bmm_Inr)
        have cs: "d0 c = d0 bank" "d1 c = 1" "d2 c = d2 bank"
          using bm a1 by (auto simp: bmm_Inr)
        have hs: "d0 x = d0 bank \<and> d1 x = 1 \<and> d2 x = d2 bank" if "h = Some x" for x
          using project_out_shape [OF po [unfolded that]] T by simp
        obtain out out' where "finish True (d0 bank) 1 (d1 bank) (d2 bank) c h a' = Inr out"
          "finish False (d0 bank) 1 (d1 bank) (d2 bank) c h a' = Inr out'" "same_numbers out out'"
          using finish_modes [OF cs as(1) a1 as(2) hs] by blast
        then show ?thesis using wa hr bm po T by (simp add: attend_def Let_def)
      qed
    qed
  qed
qed

text \<open>
  Claim C4. A one-step call on a two-dimensional query and the multi-step call on the
  same query with a target axis of length 1 leave the same memory bank behind, raise the
  same error or return the same numbers: context vectors, attention distributions (and
  \<^verbatim>\<open>attn_h\<close>) agree element by element, shaped \<open>(batch, \<cdot>)\<close> in one case and
  \<open>(1, batch, \<cdot>)\<close> in the other.
\<close>

theorem one_step_is_multi_step:
  "fst (forward fp m sparsemax (T2 q) memory_bank lens cov utr ids)
     = fst (forward fp m sparsemax (T3 (unsqueeze1 q)) memory_bank lens cov utr ids) \<and>
   (case snd (forward fp m sparsemax (T2 q) memory_bank lens cov utr ids) of
      Inl e \<Rightarrow> snd (forward fp m sparsemax (T3 (unsqueeze1 q)) memory_bank lens cov utr ids) = Inl e
    | Inr out \<Rightarrow>
        (\<exists>out'. snd (forward fp m sparsemax (T3 (unsqueeze1 q)) memory_bank lens cov utr ids) = Inr out'
               \<and> same_numbers out out'))"
proof (cases utr)
  case None
  then show ?thesis by (simp add: forward_def Let_def)
next
  case (Some u)
  let ?src = "unsqueeze1 q"
  have pr: "promote (T2 q) = ?src" "promote (T3 ?src) = ?src" by (simp_all add: promote_def)
  show ?thesis
  proof (cases "check_inputs m ?src memory_bank (promote u) lens cov")
    case (Inl e)
    then show ?thesis using Some by (simp add: forward_def Let_def pr)
  next
    case ci: (Inr L)
    show ?thesis
    proof (cases "inject_coverage fp m memory_bank cov")
      case (Inl e)
      then show ?thesis using Some ci by (simp add: forward_def Let_def pr)
    next
      case (Inr bb)
      obtain buf bank where bb: "bb = (buf, bank)" by (cases bb)
      have T: "d1 ?src = 1" by (simp add: unsqueeze1_def)
      have 1: "forward fp m sparsemax (T2 q) memory_bank lens cov utr ids
                 = (buf, attend fp m sparsemax True ?src bank L (promote u) ids)"
        using Some ci Inr bb by (simp add: forward_def Let_def pr)
      have 2: "forward fp m sparsemax (T3 ?src) memory_bank lens cov utr ids
                 = (buf, attend fp m sparsemax False ?src bank L (promote u) ids)"
        using Some ci Inr bb by (simp add: forward_def Let_def pr)
      show ?thesis
        unfolding 1 2 using attend_modes [OF T, of fp m sparsemax bank L "promote u" ids]
        by (auto split: sum.splits)
    qed
  qed
qed

theorem one_step_is_multi_step_witness:
  "same_numbers
     (projr (snd (forward exact (module 1 Dot Softmax False) (softmax exact) (T2 (const2 1 1 1)) (const3 1 2 1 1)
        (Some [1]) None (Some (T2 (const2 1 1 1))) None)))
     (projr (snd (forward exact (module 1 Dot Softmax False) (softmax exact) (T3 (unsqueeze1 (const2 1 1 1)))
        (const3 1 2 1 1) (Some [1]) None (Some (T2 (const2 1 1 1))) None)))"
proof -
  have "\<exists>out. snd (forward exact (module 1 Dot Softmax False) (softmax exact) (T2 (const2 1 1 1)) (const3 1 2 1 1)
        (Some [1]) None (Some (T2 (const2 1 1 1))) None) = Inr out"
    by (simp add: forward_eval)
  then obtain out where o: "snd (forward exact (module 1 Dot Softmax False) (softmax exact) (T2 (const2 1 1 1))
        (const3 1 2 1 1) (Some [1]) None (Some (T2 (const2 1 1 1))) None) = Inr out"
    by blast
  with one_step_is_multi_step [of exact "module 1 Dot Softmax False" "softmax exact" "const2 1 1 1"
      "const3 1 2 1 1" "Some [1]" None "Some (T2 (const2 1 1 1))" None]
  obtain out' where "snd (forward exact (module 1 Dot Softmax False) (softmax exact) (T3 (unsqueeze1 (const2 1 1 1)))
        (const3 1 2 1 1) (Some [1]) None (Some (T2 (const2 1 1 1))) None) = Inr out'"
    "same_numbers out out'"
    by auto
  then show ?thesis using o by simp
qed

end
